theory Spec2Isabelle
  imports Complex_Main "HOL-Library.Char_ord" "HOL-Library.List_Lexorder"
begin

section \<open>Blood types and the compatibility table (src/constants/bloodTypes.ts)\<close>

text \<open>
  Blood types are JavaScript strings, here \<open>string\<close>. The table
  \<open>BLOOD_COMPATIBILITY\<close> is an object literal whose keys are not integer-like, so
  \<open>Object.entries\<close> lists them in the order they are written: the table is an
  association list in that order.
\<close>

definition BLOOD_TYPES :: "string list" where
  "BLOOD_TYPES = [''O-'', ''O+'', ''A-'', ''A+'', ''B-'', ''B+'', ''AB-'', ''AB+'']"

definition BLOOD_COMPATIBILITY :: "(string \<times> string list) list" where
  "BLOOD_COMPATIBILITY =
    [(''O-'', [''O-'', ''O+'', ''A-'', ''A+'', ''B-'', ''B+'', ''AB-'', ''AB+'']),
     (''O+'', [''O+'', ''A+'', ''B+'', ''AB+'']),
     (''A-'', [''A-'', ''A+'', ''AB-'', ''AB+'']),
     (''A+'', [''A+'', ''AB+'']),
     (''B-'', [''B-'', ''B+'', ''AB-'', ''AB+'']),
     (''B+'', [''B+'', ''AB+'']),
     (''AB-'', [''AB-'', ''AB+'']),
     (''AB+'', [''AB+''])]"

text \<open>\<open>Array.prototype.includes\<close> on an array of strings.\<close>

definition array_includes :: "string list \<Rightarrow> string \<Rightarrow> bool" where
  "array_includes xs x = (x \<in> set xs)"

text \<open>
  The body of \<open>getCompatibleDonorTypes\<close>: the \<open>for ... of\<close> loop over the entries,
  with the array \<open>compatible\<close> as accumulator and \<open>push\<close> appending at the end.
\<close>

fun scan_entries :: "(string \<times> string list) list \<Rightarrow> string \<Rightarrow> string list \<Rightarrow> string list" where
  "scan_entries [] recipientType compatible = compatible"
| "scan_entries ((donorType, canDonateTo) # rest) recipientType compatible =
     scan_entries rest recipientType
       (if array_includes canDonateTo recipientType then compatible @ [donorType] else compatible)"

definition getCompatibleDonorTypes :: "string \<Rightarrow> string list" where
  "getCompatibleDonorTypes recipientType = scan_entries BLOOD_COMPATIBILITY recipientType []"

text \<open>
  The forward lookup \<open>BLOOD_COMPATIBILITY[d].includes(r)\<close>. For a key \<open>d\<close> outside the
  table the property read gives \<open>undefined\<close> and the method call raises a TypeError:
  that is the value \<open>None\<close>.
\<close>

definition canDonateTo :: "string \<Rightarrow> string \<Rightarrow> bool option" where
  "canDonateTo d r =
     (case map_of BLOOD_COMPATIBILITY d of
        None \<Rightarrow> None
      | Some recipients \<Rightarrow> Some (array_includes recipients r))"

text \<open>
  The outcome of a call of \<open>getCompatibleDonorTypes\<close> as a result value. The function
  has no \<open>throw\<close> and none of its operations fails on a string argument, so every call
  returns normally. The error type lists the error kinds the specification names.
\<close>

datatype core_error =
    InvalidCoordinate | UnknownBloodType
  | MatchNotFound | AlreadyDecided | RequestTerminal | RequestAlreadySatisfied
  | StorageTimeout

definition compatibleDonorsFor :: "string \<Rightarrow> core_error + string list" where
  "compatibleDonorsFor recipientType = Inr (getCompatibleDonorTypes recipientType)"

subsection \<open>The ABO/Rh donation rule, as the specification words it\<close>

text \<open>
  A blood type string is its ABO group followed by the Rh sign. The group carries the
  antigens A and B that occur in it (O carries none); the sign \<open>+\<close> is Rh-positive.
\<close>

datatype antigen = Antigen_A | Antigen_B

definition abo_antigens :: "string \<Rightarrow> antigen set" where
  "abo_antigens t =
     (if CHR ''A'' \<in> set (butlast t) then {Antigen_A} else {}) \<union>
     (if CHR ''B'' \<in> set (butlast t) then {Antigen_B} else {})"

definition rh_positive :: "string \<Rightarrow> bool" where
  "rh_positive t = (t \<noteq> [] \<and> last t = CHR ''+'')"

definition abo_rh_rule :: "string \<Rightarrow> string \<Rightarrow> bool" where
  "abo_rh_rule d r = (abo_antigens d \<subseteq> abo_antigens r \<and> (\<not> rh_positive d \<or> rh_positive r))"

section \<open>The auth store (src/store/authStore.ts)\<close>

text \<open>
  The store holds \<open>user\<close>, \<open>token\<close>, \<open>isLoading\<close> and \<open>isAuthenticated\<close>;
  \<open>null\<close> is \<open>None\<close>. The user object is opaque here (type \<open>'u\<close>).
\<close>

record 'u AuthState =
  user :: "'u option"
  token :: "string option"
  isLoading :: bool
  isAuthenticated :: bool

definition initialAuthState :: "'u AuthState" where
  "initialAuthState = \<lparr>user = None, token = None, isLoading = True, isAuthenticated = False\<rparr>"

text \<open>
  zustand's \<open>set(partial)\<close> merges the given fields into the current state and leaves the
  others. A partial state is a record of optional fields: \<open>None\<close> is a field the call
  does not mention.
\<close>

record 'u partial =
  user_p :: "'u option option"
  token_p :: "string option option"
  isLoading_p :: "bool option"
  isAuthenticated_p :: "bool option"

definition no_fields :: "'u partial" where
  "no_fields = \<lparr>user_p = None, token_p = None, isLoading_p = None, isAuthenticated_p = None\<rparr>"

definition zustand_set :: "'u partial \<Rightarrow> 'u AuthState \<Rightarrow> 'u AuthState" where
  "zustand_set p s =
     \<lparr>user = (case user_p p of None \<Rightarrow> user s | Some v \<Rightarrow> v),
      token = (case token_p p of None \<Rightarrow> token s | Some v \<Rightarrow> v),
      isLoading = (case isLoading_p p of None \<Rightarrow> isLoading s | Some v \<Rightarrow> v),
      isAuthenticated = (case isAuthenticated_p p of None \<Rightarrow> isAuthenticated s | Some v \<Rightarrow> v)\<rparr>"

text \<open>
  The outcome of an awaited call (axios, AsyncStorage): it resolves with a value or it
  rejects. A rejection carries \<open>error.response?.data?.detail\<close> when there is one.
\<close>

datatype 'a awaited = Resolved 'a | Rejected "string option"

text \<open>JavaScript truthiness of a string that may be null.\<close>

definition truthy :: "string option \<Rightarrow> bool" where
  "truthy v = (case v of None \<Rightarrow> False | Some str \<Rightarrow> str \<noteq> [])"

text \<open>\<open>detail || fallback\<close>, the message of the Error an operation throws.\<close>

definition message_or :: "string option \<Rightarrow> string \<Rightarrow> string" where
  "message_or detail fallback = (if truthy detail then the detail else fallback)"

text \<open>
  An operation of the store is modelled by the \<open>set\<close> calls it makes, in order, and how
  it ends: \<open>Inr ()\<close> when it returns, \<open>Inl msg\<close> when it throws. The outcomes of
  the awaited calls are arguments, so every path of the source is a case of the model.
  A resolved login or register response carries \<open>response.data.access_token\<close> and
  the user. The response is untyped, so the token may be missing or null (\<open>None\<close>); the
  operation passes it to \<open>set\<close> as it is.
\<close>

type_synonym 'u effect = "'u partial list \<times> (string + unit)"

definition signed_in :: "string option \<Rightarrow> 'u \<Rightarrow> 'u partial" where
  "signed_in access_token u =
     no_fields\<lparr>token_p := Some access_token, user_p := Some (Some u),
       isAuthenticated_p := Some True\<rparr>"

definition signed_out :: "'u partial" where
  "signed_out = no_fields\<lparr>token_p := Some None, user_p := Some None, isAuthenticated_p := Some False\<rparr>"

definition login :: "(string option \<times> 'u) awaited \<Rightarrow> unit awaited \<Rightarrow> unit awaited \<Rightarrow> 'u effect" where
  "login response stored_token stored_user =
     (case response of
        Rejected detail \<Rightarrow> ([], Inl (message_or detail ''Login failed''))
      | Resolved (access_token, u) \<Rightarrow>
          (case stored_token of
             Rejected detail \<Rightarrow> ([], Inl (message_or detail ''Login failed''))
           | Resolved _ \<Rightarrow>
               (case stored_user of
                  Rejected detail \<Rightarrow> ([], Inl (message_or detail ''Login failed''))
                | Resolved _ \<Rightarrow> ([signed_in access_token u], Inr ()))))"

definition register :: "(string option \<times> 'u) awaited \<Rightarrow> unit awaited \<Rightarrow> unit awaited \<Rightarrow> 'u effect" where
  "register response stored_token stored_user =
     (case response of
        Rejected detail \<Rightarrow> ([], Inl (message_or detail ''Registration failed''))
      | Resolved (access_token, u) \<Rightarrow>
          (case stored_token of
             Rejected detail \<Rightarrow> ([], Inl (message_or detail ''Registration failed''))
           | Resolved _ \<Rightarrow>
               (case stored_user of
                  Rejected detail \<Rightarrow> ([], Inl (message_or detail ''Registration failed''))
                | Resolved _ \<Rightarrow> ([signed_in access_token u], Inr ()))))"

text \<open>\<open>logout\<close> has no \<open>try\<close>: a rejected \<open>removeItem\<close> leaves it before the \<open>set\<close>.\<close>

definition logout :: "unit awaited \<Rightarrow> unit awaited \<Rightarrow> 'u effect" where
  "logout removed_token removed_user =
     (case removed_token of
        Rejected detail \<Rightarrow> ([], Inl ''removeItem rejected'')
      | Resolved _ \<Rightarrow>
          (case removed_user of
             Rejected detail \<Rightarrow> ([], Inl ''removeItem rejected'')
           | Resolved _ \<Rightarrow> ([signed_out], Inr ())))"

text \<open>
  \<open>loadUser\<close>: \<open>JSON_parse\<close> is \<open>JSON.parse\<close> on the stored user (\<open>None\<close> when it
  throws). The inner \<open>try\<close> refreshes the user; its \<open>catch\<close> signs out. The outer
  \<open>catch\<close> only clears \<open>isLoading\<close>, and the operation never throws.
\<close>

definition loading_done :: "'u partial" where
  "loading_done = no_fields\<lparr>isLoading_p := Some False\<rparr>"

definition loadUser ::
  "(string \<Rightarrow> 'u option) \<Rightarrow> string option awaited \<Rightarrow> string option awaited \<Rightarrow>
   'u awaited \<Rightarrow> unit awaited \<Rightarrow> unit awaited \<Rightarrow> unit awaited \<Rightarrow> 'u effect" where
  "loadUser JSON_parse got_token got_user me stored_user removed_token removed_user =
     (case got_token of
        Rejected _ \<Rightarrow> ([loading_done], Inr ())
      | Resolved tok \<Rightarrow>
          (case got_user of
             Rejected _ \<Rightarrow> ([loading_done], Inr ())
           | Resolved userStr \<Rightarrow>
               if truthy tok \<and> truthy userStr then
                 (case JSON_parse (the userStr) of
                    None \<Rightarrow> ([loading_done], Inr ())
                  | Some u \<Rightarrow>
                      (let restored = (signed_in tok u)\<lparr>isLoading_p := Some False\<rparr>;
                           refreshed =
                             (case me of
                                Rejected _ \<Rightarrow> None
                              | Resolved data \<Rightarrow> Some (no_fields\<lparr>user_p := Some (Some data)\<rparr>));
                           refresh_failed =
                             (case me of
                                Rejected _ \<Rightarrow> True
                              | Resolved _ \<Rightarrow> (case stored_user of Rejected _ \<Rightarrow> True | Resolved _ \<Rightarrow> False));
                           sets = [restored] @ (case refreshed of None \<Rightarrow> [] | Some p \<Rightarrow> [p])
                       in if \<not> refresh_failed then (sets, Inr ())
                          else
                            (case removed_token of
                               Rejected _ \<Rightarrow> (sets @ [signed_out, loading_done], Inr ())
                             | Resolved _ \<Rightarrow>
                                 (case removed_user of
                                    Rejected _ \<Rightarrow> (sets @ [signed_out, loading_done], Inr ())
                                  | Resolved _ \<Rightarrow> (sets @ [signed_out], Inr ())))))
               else ([loading_done], Inr ())))"

text \<open>
  \<open>updateDonorProfile\<close> stores the updated user before the \<open>set\<close>, so a rejected
  \<open>setItem\<close> throws with no \<open>set\<close> made. It reads the token only for the header.
\<close>

definition updateDonorProfile :: "'u AuthState \<Rightarrow> 'u awaited \<Rightarrow> unit awaited \<Rightarrow> 'u effect" where
  "updateDonorProfile s response stored_user =
     (case response of
        Rejected detail \<Rightarrow> ([], Inl (message_or detail ''Failed to update profile''))
      | Resolved updatedUser \<Rightarrow>
          (case stored_user of
             Rejected detail \<Rightarrow> ([], Inl (message_or detail ''Failed to update profile''))
           | Resolved _ \<Rightarrow> ([no_fields\<lparr>user_p := Some (Some updatedUser)\<rparr>], Inr ())))"

text \<open>
  \<open>refreshUser\<close> returns at once when \<open>get().token\<close> is falsy; otherwise it sets the
  user before it stores it, and its \<open>catch\<close> only logs.
\<close>

definition refreshUser :: "'u AuthState \<Rightarrow> 'u awaited \<Rightarrow> unit awaited \<Rightarrow> 'u effect" where
  "refreshUser s response stored_user =
     (if \<not> truthy (token s) then ([], Inr ())
      else
        (case response of
           Rejected _ \<Rightarrow> ([], Inr ())
         | Resolved data \<Rightarrow> ([no_fields\<lparr>user_p := Some (Some data)\<rparr>], Inr ())))"

text \<open>One call of an operation, with the outcomes of what it awaits.\<close>

datatype 'u call =
    Login "(string option \<times> 'u) awaited" "unit awaited" "unit awaited"
  | Register "(string option \<times> 'u) awaited" "unit awaited" "unit awaited"
  | Logout "unit awaited" "unit awaited"
  | LoadUser "string option awaited" "string option awaited" "'u awaited"
      "unit awaited" "unit awaited" "unit awaited"
  | UpdateDonorProfile "'u awaited" "unit awaited"
  | RefreshUser "'u awaited" "unit awaited"

fun effect_of :: "(string \<Rightarrow> 'u option) \<Rightarrow> 'u AuthState \<Rightarrow> 'u call \<Rightarrow> 'u effect" where
  "effect_of JSON_parse s (Login r a b) = login r a b"
| "effect_of JSON_parse s (Register r a b) = register r a b"
| "effect_of JSON_parse s (Logout a b) = logout a b"
| "effect_of JSON_parse s (LoadUser t u m a b c) = loadUser JSON_parse t u m a b c"
| "effect_of JSON_parse s (UpdateDonorProfile r a) = updateDonorProfile s r a"
| "effect_of JSON_parse s (RefreshUser r a) = refreshUser s r a"

text \<open>The store after the \<open>set\<close> calls of an effect, applied in order.\<close>

definition apply_sets :: "'u partial list \<Rightarrow> 'u AuthState \<Rightarrow> 'u AuthState" where
  "apply_sets ps s = fold zustand_set ps s"

definition run_call :: "(string \<Rightarrow> 'u option) \<Rightarrow> 'u AuthState \<Rightarrow> 'u call \<Rightarrow> 'u AuthState" where
  "run_call JSON_parse s c = apply_sets (fst (effect_of JSON_parse s c)) s"

definition auth_invariant :: "'u AuthState \<Rightarrow> bool" where
  "auth_invariant s = (isAuthenticated s = (token s \<noteq> None))"

text \<open>
  A call that signs in with no token: \<open>login\<close> or \<open>register\<close> whose response
  resolves with a null \<open>access_token\<close> and whose two \<open>setItem\<close> calls resolve, so
  that it reaches its \<open>set\<close>.
\<close>

fun null_token_sign_in :: "'u call \<Rightarrow> bool" where
  "null_token_sign_in (Login (Resolved (None, u)) (Resolved a) (Resolved b)) = True"
| "null_token_sign_in (Register (Resolved (None, u)) (Resolved a) (Resolved b)) = True"
| "null_token_sign_in c = False"

text \<open>
  A partial state keeps the pairing of \<open>token\<close> and \<open>isAuthenticated\<close> when it
  mentions both, consistently, or neither.
\<close>

definition pairs_token :: "'u partial \<Rightarrow> bool" where
  "pairs_token p =
     (case token_p p of
        None \<Rightarrow> isAuthenticated_p p = None
      | Some t \<Rightarrow> isAuthenticated_p p = Some (t \<noteq> None))"

section \<open>The notification list (app/notifications.tsx)\<close>

text \<open>
  The fields of \<open>Notification\<close>, prefixed with \<open>n_\<close>. Of \<open>data\<close> the screen reads only
  \<open>data?.request_id\<close>, which is what \<open>n_data\<close> holds.
\<close>

record Notification =
  n_id :: string
  n_user_id :: string
  n_title :: string
  n_message :: string
  n_type :: string
  n_is_read :: bool
  n_data :: "string option"
  n_created_at :: string

text \<open>
  \<open>handleNotificationPress\<close>: \<open>marked\<close> says whether \<open>markNotificationRead\<close>
  resolved. The state update is the functional one of the source, a map over the
  previous list. The result is the new list and the route pushed, if any.
\<close>

definition handleNotificationPress ::
  "Notification \<Rightarrow> bool \<Rightarrow> Notification list \<Rightarrow> Notification list \<times> string option" where
  "handleNotificationPress notification marked prev =
     (if \<not> n_is_read notification \<and> marked
        then map (\<lambda>n. if n_id n = n_id notification then n\<lparr>n_is_read := True\<rparr> else n) prev
        else prev,
      if truthy (n_data notification)
        then Some (''/request/'' @ the (n_data notification))
        else None)"

text \<open>\<open>handleMarkAllRead\<close>: \<open>marked\<close> says whether \<open>markAllNotificationsRead\<close> resolved.\<close>

definition handleMarkAllRead :: "bool \<Rightarrow> Notification list \<Rightarrow> Notification list" where
  "handleMarkAllRead marked prev =
     (if marked then map (\<lambda>n. n\<lparr>n_is_read := True\<rparr>) prev else prev)"

section \<open>The create-request form (CreateRequestScreen)\<close>

text \<open>
  \<open>parseInt(string)\<close> with no radix, after ECMAScript: leading white space is dropped,
  then an optional sign, then the prefix \<open>0x\<close> or \<open>0X\<close> selects radix 16 (otherwise
  10), and the longest run of digits of that radix is read. Characters are code units
  below 256.

  The result is a JavaScript Number, a double. \<open>Exact n\<close> is the integer \<open>n\<close>, for a
  magnitude below \<open>2 ^ 53 = 9007199254740992\<close>, where every integer is a double
  (\<open>-0\<close> is \<open>Exact 0\<close>); \<open>Rounded n\<close> is the double nearest to a larger integer
  \<open>n\<close>, possibly an infinity, which the model does not compute.
\<close>

datatype number = NaN | Exact int | Rounded int

definition is_white_space :: "char \<Rightarrow> bool" where
  "is_white_space c = (of_char c \<in> {9, 10, 11, 12, 13, 32, 160 :: nat})"

definition digit_value :: "char \<Rightarrow> nat option" where
  "digit_value c =
     (let n = of_char c :: nat in
      if 48 \<le> n \<and> n \<le> 57 then Some (n - 48)
      else if 97 \<le> n \<and> n \<le> 122 then Some (n - 87)
      else if 65 \<le> n \<and> n \<le> 90 then Some (n - 55)
      else None)"

definition is_radix_digit :: "nat \<Rightarrow> char \<Rightarrow> bool" where
  "is_radix_digit R c = (case digit_value c of None \<Rightarrow> False | Some v \<Rightarrow> v < R)"

definition digits_value :: "nat \<Rightarrow> string \<Rightarrow> nat" where
  "digits_value R Z = foldl (\<lambda>acc c. acc * R + the (digit_value c)) 0 Z"

definition parseInt :: "string \<Rightarrow> number" where
  "parseInt inputString =
     (let S = dropWhile is_white_space inputString;
          sign = (if S \<noteq> [] \<and> hd S = CHR ''-'' then - 1 else 1 :: int);
          S1 = (if S \<noteq> [] \<and> (hd S = CHR ''+'' \<or> hd S = CHR ''-'') then tl S else S);
          hex = (take 2 S1 = ''0x'' \<or> take 2 S1 = ''0X'');
          R = (if hex then 16 else 10);
          S2 = (if hex then drop 2 S1 else S1);
          Z = takeWhile (is_radix_digit R) S2
      in if Z = [] then NaN
         else if digits_value R Z < 9007199254740992 then Exact (sign * int (digits_value R Z))
         else Rounded (sign * int (digits_value R Z)))"

text \<open>
  \<open>parseInt(unitsNeeded) || 1\<close>: \<open>NaN\<close> and \<open>0\<close> are falsy, every other Number
  is truthy.
\<close>

definition units_or_one :: "string \<Rightarrow> number" where
  "units_or_one unitsNeeded =
     (case parseInt unitsNeeded of
        NaN \<Rightarrow> Exact 1
      | Exact n \<Rightarrow> if n = 0 then Exact 1 else Exact n
      | Rounded n \<Rightarrow> Rounded n)"

text \<open>
  The state variables of \<open>CreateRequestScreen\<close> that \<open>handleSubmit\<close> reads, prefixed
  with \<open>f_\<close>, and the object it passes to \<open>createRequest\<close>, prefixed with \<open>c_\<close>.
  Coordinates are opaque (type \<open>'c\<close>); \<open>undefined\<close> is \<open>None\<close>.
\<close>

record 'c CreateRequestForm =
  f_bloodType :: string
  f_unitsNeeded :: string
  f_urgency :: string
  f_hospitalName :: string
  f_hospitalAddress :: string
  f_patientName :: string
  f_notes :: string
  f_latitude :: "'c option"
  f_longitude :: "'c option"

record 'c CreateRequestData =
  c_blood_type :: string
  c_units_needed :: number
  c_urgency :: string
  c_hospital_name :: "string option"
  c_hospital_address :: "string option"
  c_latitude :: "'c option"
  c_longitude :: "'c option"
  c_patient_name :: "string option"
  c_notes :: "string option"

definition initialForm :: "'c CreateRequestForm" where
  "initialForm =
     \<lparr>f_bloodType = [], f_unitsNeeded = ''1'', f_urgency = ''normal'', f_hospitalName = [],
      f_hospitalAddress = [], f_patientName = [], f_notes = [],
      f_latitude = None, f_longitude = None\<rparr>"

text \<open>\<open>value || undefined\<close> for a string.\<close>

definition or_undefined :: "string \<Rightarrow> string option" where
  "or_undefined v = (if v = [] then None else Some v)"

text \<open>
  \<open>handleSubmit\<close>: \<open>None\<close> when it returns after the alert for a missing blood type,
  otherwise the object it sends.
\<close>

definition handleSubmit :: "'c CreateRequestForm \<Rightarrow> 'c CreateRequestData option" where
  "handleSubmit f =
     (if f_bloodType f = [] then None
      else Some
        \<lparr>c_blood_type = f_bloodType f,
         c_units_needed = units_or_one (f_unitsNeeded f),
         c_urgency = f_urgency f,
         c_hospital_name = or_undefined (f_hospitalName f),
         c_hospital_address = or_undefined (f_hospitalAddress f),
         c_latitude = f_latitude f,
         c_longitude = f_longitude f,
         c_patient_name = or_undefined (f_patientName f),
         c_notes = or_undefined (f_notes f)\<rparr>)"

text \<open>
  The units selector renders one button per option, and pressing a button is the only
  call of \<open>setUnitsNeeded\<close>. The other setters take what the user types or picks.
\<close>

definition unit_options :: "string list" where
  "unit_options = [''1'', ''2'', ''3'', ''4'', ''5+'']"

definition URGENCY_LEVELS :: "string list" where
  "URGENCY_LEVELS = [''emergency'', ''urgent'', ''normal'']"

inductive form_reachable :: "'c CreateRequestForm \<Rightarrow> bool" where
  initial: "form_reachable initialForm"
| press_unit: "form_reachable f \<Longrightarrow> unit \<in> set unit_options \<Longrightarrow>
     form_reachable (f\<lparr>f_unitsNeeded := unit\<rparr>)"
| select_blood_type: "form_reachable f \<Longrightarrow> t \<in> set BLOOD_TYPES \<Longrightarrow>
     form_reachable (f\<lparr>f_bloodType := t\<rparr>)"
| select_urgency: "form_reachable f \<Longrightarrow> u \<in> set URGENCY_LEVELS \<Longrightarrow>
     form_reachable (f\<lparr>f_urgency := u\<rparr>)"
| type_hospital_name: "form_reachable f \<Longrightarrow> form_reachable (f\<lparr>f_hospitalName := v\<rparr>)"
| type_hospital_address: "form_reachable f \<Longrightarrow> form_reachable (f\<lparr>f_hospitalAddress := v\<rparr>)"
| type_patient_name: "form_reachable f \<Longrightarrow> form_reachable (f\<lparr>f_patientName := v\<rparr>)"
| type_notes: "form_reachable f \<Longrightarrow> form_reachable (f\<lparr>f_notes := v\<rparr>)"
| locate: "form_reachable f \<Longrightarrow>
     form_reachable (f\<lparr>f_latitude := Some lat, f_longitude := Some lon\<rparr>)"

section \<open>Where the client offers the Accept action\<close>

text \<open>
  The fields of the client's \<open>DonorMatch\<close> (prefix \<open>m_\<close>) and \<open>BloodRequest\<close> (prefix
  \<open>r_\<close>) that the two render guards can reach, and of the signed-in user (prefix
  \<open>u_\<close>). A missing optional field is \<open>None\<close>.
\<close>

record DonorMatch =
  m_donor_id :: string
  m_donor_name :: string
  m_blood_type :: string
  m_is_available :: bool
  m_status :: "string option"

record BloodRequest =
  r_id :: string
  r_requester_id :: string
  r_blood_type :: string
  r_units_needed :: int
  r_units_fulfilled :: int
  r_urgency :: string
  r_status :: string
  r_matched_donors :: "DonorMatch list"

record User =
  u_id :: string
  u_role :: string

text \<open>
  \<open>RequestCard\<close> (src/components/RequestCard.tsx) renders the button under
  \<open>showAccept && request.status !== 'fulfilled'\<close>; the optional prop is \<open>None\<close> when
  absent.
\<close>

definition RequestCard_offers_accept :: "bool option \<Rightarrow> BloodRequest \<Rightarrow> bool" where
  "RequestCard_offers_accept showAccept request =
     (showAccept = Some True \<and> r_status request \<noteq> ''fulfilled'')"

text \<open>
  \<open>RequestDetailScreen\<close> (app/request/[id].tsx), once the request is loaded: the button
  is rendered under \<open>isDonor && amMatched && !hasAccepted && request.status !== 'fulfilled'\<close>.
\<close>

definition is_my_match :: "User option \<Rightarrow> DonorMatch \<Rightarrow> bool" where
  "is_my_match usr d = (case usr of None \<Rightarrow> False | Some u \<Rightarrow> m_donor_id d = u_id u)"

definition RequestDetail_offers_accept :: "User option \<Rightarrow> BloodRequest \<Rightarrow> bool" where
  "RequestDetail_offers_accept usr request =
     (let isDonor = (case usr of None \<Rightarrow> False | Some u \<Rightarrow> u_role u = ''donor'');
          amMatched = list_ex (is_my_match usr) (r_matched_donors request);
          myMatch = find (is_my_match usr) (r_matched_donors request);
          hasAccepted = (case myMatch of None \<Rightarrow> False | Some d \<Rightarrow> m_status d = Some ''accepted'')
      in isDonor \<and> amMatched \<and> \<not> hasAccepted \<and> r_status request \<noteq> ''fulfilled'')"

section \<open>The matching and fulfillment core, from the specification\<close>

text \<open>
  Modelled from the spec: the data of the service behind \<open>/api/requests\<close> and
  \<open>/api/donors/nearby\<close> (section 3), whose code is not in the sources: donors,
  matches and requests with their status enumerations, and the selector's
  configuration. Distances, scores and probabilities are real numbers; dates are day
  numbers; coordinates are opaque (type \<open>'c\<close>).
\<close>

datatype request_status = Pending | Matching | Fulfilled | Cancelled

datatype match_status = Proposed | Accepted | Declined

record 'c Donor =
  dn_id :: string
  dn_name :: string
  dn_blood_type :: string
  dn_coordinate :: 'c
  dn_is_available :: bool
  dn_last_donation :: "int option"
  dn_response_probability :: real

record CoreMatch =
  cm_donor_id :: string
  cm_donor_name :: string
  cm_blood_type :: string
  cm_distance_km :: real
  cm_compatibility_score :: real
  cm_status :: match_status
  cm_is_available :: bool

record 'c CoreRequest =
  cr_id :: string
  cr_requester :: string
  cr_blood_type :: string
  cr_units_needed :: int
  cr_units_fulfilled :: int
  cr_urgency :: string
  cr_status :: request_status
  cr_matches :: "CoreMatch list"
  cr_coordinate :: 'c

record selector_config =
  cooldown_days :: int
  search_radius :: real
  top_n :: nat

text \<open>
  Modelled from the spec: step 2 of MatchSelector (section 4.4), whose code is not in
  the sources. Dates are day numbers; a donor with no last donation is outside the
  cooldown window.
\<close>

definition outside_cooldown :: "selector_config \<Rightarrow> int \<Rightarrow> 'c Donor \<Rightarrow> bool" where
  "outside_cooldown cfg today d =
     (case dn_last_donation d of None \<Rightarrow> True | Some day \<Rightarrow> cooldown_days cfg \<le> today - day)"

text \<open>
  Modelled from the spec: step 6 of MatchSelector, the order of the result: descending
  score, ties by ascending distance, then by donor identity.
\<close>

definition ranks_before :: "CoreMatch \<Rightarrow> CoreMatch \<Rightarrow> bool" where
  "ranks_before a b =
     (cm_compatibility_score b < cm_compatibility_score a \<or>
      (cm_compatibility_score a = cm_compatibility_score b \<and>
        (cm_distance_km a < cm_distance_km b \<or>
         (cm_distance_km a = cm_distance_km b \<and> cm_donor_id a \<le> cm_donor_id b))))"

fun insert_ranked :: "CoreMatch \<Rightarrow> CoreMatch list \<Rightarrow> CoreMatch list" where
  "insert_ranked m [] = [m]"
| "insert_ranked m (x # xs) =
     (if ranks_before m x then m # x # xs else x # insert_ranked m xs)"

definition rank_matches :: "CoreMatch list \<Rightarrow> CoreMatch list" where
  "rank_matches ms = foldr insert_ranked ms []"

text \<open>
  Modelled from the spec: \<open>selectMatches\<close> of MatchSelector (section 4.4), whose code is
  not in the sources. GeoDistance and the ScoringEngine are the parameters
  \<open>distance\<close> and \<open>score\<close>; the compatibility gate is the forward lookup of the table.
  The seven steps are in the specification's order.
\<close>

definition propose :: "('c \<Rightarrow> 'c \<Rightarrow> real) \<Rightarrow> ('c CoreRequest \<Rightarrow> 'c Donor \<Rightarrow> real \<Rightarrow> real) \<Rightarrow>
    'c CoreRequest \<Rightarrow> 'c Donor \<Rightarrow> CoreMatch" where
  "propose distance score request d =
     \<lparr>cm_donor_id = dn_id d, cm_donor_name = dn_name d, cm_blood_type = dn_blood_type d,
      cm_distance_km = distance (dn_coordinate d) (cr_coordinate request),
      cm_compatibility_score =
        score request d (distance (dn_coordinate d) (cr_coordinate request)),
      cm_status = Proposed, cm_is_available = dn_is_available d\<rparr>"

definition selectMatches ::
  "selector_config \<Rightarrow> ('c \<Rightarrow> 'c \<Rightarrow> real) \<Rightarrow> ('c CoreRequest \<Rightarrow> 'c Donor \<Rightarrow> real \<Rightarrow> real) \<Rightarrow> int \<Rightarrow>
   'c CoreRequest \<Rightarrow> 'c Donor list \<Rightarrow> CoreMatch list" where
  "selectMatches cfg distance score today request candidateDonors =
     (let available = filter dn_is_available candidateDonors;
          rested = filter (outside_cooldown cfg today) available;
          compatible =
            filter (\<lambda>d. canDonateTo (dn_blood_type d) (cr_blood_type request) = Some True) rested;
          near =
            filter (\<lambda>d. distance (dn_coordinate d) (cr_coordinate request) \<le> search_radius cfg)
              compatible;
          scored = map (propose distance score request) near;
          ranked = rank_matches scored
      in take (top_n cfg) ranked)"

text \<open>
  Modelled from the spec: \<open>acceptMatch\<close> of the FulfillmentCoordinator (section 4.6),
  whose code is not in the sources: one call that runs its four steps with no other
  call in between. The four steps are in the specification's order; on success the
  result is the request as updated and the accepted match.
\<close>

fun set_match_status :: "string \<Rightarrow> match_status \<Rightarrow> CoreMatch list \<Rightarrow> CoreMatch list" where
  "set_match_status donor st [] = []"
| "set_match_status donor st (m # ms) =
     (if cm_donor_id m = donor then m\<lparr>cm_status := st\<rparr> # ms
      else m # set_match_status donor st ms)"

definition is_terminal :: "request_status \<Rightarrow> bool" where
  "is_terminal st = (st = Fulfilled \<or> st = Cancelled)"

definition acceptMatch :: "'c CoreRequest \<Rightarrow> string \<Rightarrow> core_error + ('c CoreRequest \<times> CoreMatch)" where
  "acceptMatch request donor =
     (case find (\<lambda>m. cm_donor_id m = donor) (cr_matches request) of
        None \<Rightarrow> Inl MatchNotFound
      | Some m \<Rightarrow>
          if cm_status m \<noteq> Proposed then Inl AlreadyDecided
          else if is_terminal (cr_status request) then Inl RequestTerminal
          else if cr_units_fulfilled request < cr_units_needed request then
            (let fulfilled = cr_units_fulfilled request + 1
             in Inr
               (request
                 \<lparr>cr_units_fulfilled := fulfilled,
                  cr_matches := set_match_status donor Accepted (cr_matches request),
                  cr_status :=
                    (if fulfilled = cr_units_needed request then Fulfilled else cr_status request)\<rparr>,
                m\<lparr>cm_status := Accepted\<rparr>))
          else Inl RequestAlreadySatisfied)"

text \<open>
  Modelled from the spec: the other transitions of the request (sections 3 and 4.5),
  whose code is not in the sources: creation with no unit fulfilled, the match list
  stored with status \<open>matching\<close> on a \<open>pending\<close> request (no such transition is
  defined from another status, and the request then stays as it is), and the
  requester's cancellation, permitted only before a terminal state.
\<close>

definition createRequest ::
  "string \<Rightarrow> string \<Rightarrow> string \<Rightarrow> int \<Rightarrow> string \<Rightarrow> 'c \<Rightarrow> 'c CoreRequest" where
  "createRequest ident requester blood_type units_needed urgency coordinate =
     \<lparr>cr_id = ident, cr_requester = requester, cr_blood_type = blood_type,
      cr_units_needed = units_needed, cr_units_fulfilled = 0, cr_urgency = urgency,
      cr_status = Pending, cr_matches = [], cr_coordinate = coordinate\<rparr>"

definition storeMatches :: "CoreMatch list \<Rightarrow> 'c CoreRequest \<Rightarrow> 'c CoreRequest" where
  "storeMatches ms request =
     (if cr_status request = Pending then request\<lparr>cr_matches := ms, cr_status := Matching\<rparr>
      else request)"

definition cancelRequest :: "'c CoreRequest \<Rightarrow> core_error + 'c CoreRequest" where
  "cancelRequest request =
     (if is_terminal (cr_status request) then Inl RequestTerminal
      else Inr (request\<lparr>cr_status := Cancelled\<rparr>))"

text \<open>
  Modelled from the spec: the two phases of one \<open>acceptMatch\<close> call when calls on the
  same request overlap (sections 4.6 and 5), whose code is not in the sources. Steps 1
  and 2 work on the request as the call loaded it; steps 3 and 4 are one atomic step on
  the request as it is when the call gets there. A per-request lock runs the two phases
  of a call back to back; the compare-and-swap loop on the unit counter that section 5
  also allows lets the phases of different calls interleave.
\<close>

definition load_and_check :: "'c CoreRequest \<Rightarrow> string \<Rightarrow> core_error + CoreMatch" where
  "load_and_check request donor =
     (case find (\<lambda>m. cm_donor_id m = donor) (cr_matches request) of
        None \<Rightarrow> Inl MatchNotFound
      | Some m \<Rightarrow>
          if cm_status m \<noteq> Proposed then Inl AlreadyDecided
          else if is_terminal (cr_status request) then Inl RequestTerminal
          else Inr m)"

definition commit_accept ::
  "'c CoreRequest \<Rightarrow> string \<Rightarrow> CoreMatch \<Rightarrow> core_error + ('c CoreRequest \<times> CoreMatch)" where
  "commit_accept request donor m =
     (if cr_units_fulfilled request < cr_units_needed request then
        (let fulfilled = cr_units_fulfilled request + 1
         in Inr
           (request
             \<lparr>cr_units_fulfilled := fulfilled,
              cr_matches := set_match_status donor Accepted (cr_matches request),
              cr_status :=
                (if fulfilled = cr_units_needed request then Fulfilled else cr_status request)\<rparr>,
            m\<lparr>cm_status := Accepted\<rparr>))
      else Inl RequestAlreadySatisfied)"

text \<open>
  Modelled from the spec: N concurrent calls of \<open>acceptMatch\<close> on one request
  (sections 4.6, 5 and 8), whose code is not in the sources. The coordinator holds the
  request, the calls that passed steps 1 and 2 and have not reached step 3 yet (each
  with the match it located), and the outcomes of the calls that ended, in the order
  they ended. \<open>Load d\<close> is donor \<open>d\<close>'s call doing steps 1 and 2, \<open>Commit d\<close> the
  same call doing steps 3 and 4; a \<open>Commit\<close> of a call that is not in flight is no
  event of the system and changes nothing. A schedule is a list of events: every
  interleaving of the calls is one.
\<close>

datatype accept_event = Load string | Commit string

record 'c coordinator =
  co_live :: "'c CoreRequest"
  co_in_flight :: "(string \<times> CoreMatch) list"
  co_outcomes :: "(core_error + CoreMatch) list"

fun step :: "'c coordinator \<Rightarrow> accept_event \<Rightarrow> 'c coordinator" where
  "step c (Load donor) =
     (case load_and_check (co_live c) donor of
        Inl e \<Rightarrow> c\<lparr>co_outcomes := co_outcomes c @ [Inl e]\<rparr>
      | Inr m \<Rightarrow> c\<lparr>co_in_flight := co_in_flight c @ [(donor, m)]\<rparr>)"
| "step c (Commit donor) =
     (case map_of (co_in_flight c) donor of
        None \<Rightarrow> c
      | Some m \<Rightarrow>
          (case commit_accept (co_live c) donor m of
             Inl e \<Rightarrow>
               c\<lparr>co_in_flight := filter (\<lambda>p. fst p \<noteq> donor) (co_in_flight c),
                 co_outcomes := co_outcomes c @ [Inl e]\<rparr>
           | Inr (request', m') \<Rightarrow>
               c\<lparr>co_live := request',
                 co_in_flight := filter (\<lambda>p. fst p \<noteq> donor) (co_in_flight c),
                 co_outcomes := co_outcomes c @ [Inr m']\<rparr>))"

definition run_events :: "'c CoreRequest \<Rightarrow> accept_event list \<Rightarrow> 'c coordinator" where
  "run_events request es =
     foldl step \<lparr>co_live = request, co_in_flight = [], co_outcomes = []\<rparr> es"

text \<open>The donors whose calls start in a schedule: N is the length of this list.\<close>

fun loads :: "accept_event list \<Rightarrow> string list" where
  "loads [] = []"
| "loads (Load donor # es) = donor # loads es"
| "loads (Commit donor # es) = loads es"

definition units_in_range :: "'c CoreRequest \<Rightarrow> bool" where
  "units_in_range request =
     (0 \<le> cr_units_fulfilled request \<and> cr_units_fulfilled request \<le> cr_units_needed request)"

definition succeeded :: "(core_error + CoreMatch) list \<Rightarrow> nat" where
  "succeeded outcomes = length (filter (\<lambda>out. \<not> isl out) outcomes)"

definition failures :: "(core_error + CoreMatch) list \<Rightarrow> core_error list" where
  "failures outcomes = map projl (filter isl outcomes)"

definition proposed_for :: "'c CoreRequest \<Rightarrow> string \<Rightarrow> bool" where
  "proposed_for request donor =
     (case find (\<lambda>m. cm_donor_id m = donor) (cr_matches request) of
        None \<Rightarrow> False
      | Some m \<Rightarrow> cm_status m = Proposed)"

text \<open>
  A request whose status agrees with its counters: the units are in range, the request
  is not cancelled, and it is \<open>fulfilled\<close> exactly when the counters are equal.
\<close>

definition settled :: "'c CoreRequest \<Rightarrow> bool" where
  "settled request =
     (units_in_range request \<and> cr_status request \<noteq> Cancelled \<and>
      (cr_status request = Fulfilled) = (cr_units_fulfilled request = cr_units_needed request))"

text \<open>
  A coordinator on track for \<open>needed\<close> units: its request is settled, the calls in
  flight are of distinct donors whose matches are still proposed, the units fulfilled are
  the calls that succeeded, calls failed only with \<open>RequestTerminal\<close> or
  \<open>RequestAlreadySatisfied\<close>, and only once the request was full.
\<close>

definition on_track :: "int \<Rightarrow> 'c coordinator \<Rightarrow> bool" where
  "on_track needed c =
     (settled (co_live c) \<and> cr_units_needed (co_live c) = needed \<and>
      distinct (map fst (co_in_flight c)) \<and>
      list_all (\<lambda>p. proposed_for (co_live c) (fst p)) (co_in_flight c) \<and>
      cr_units_fulfilled (co_live c) = int (succeeded (co_outcomes c)) \<and>
      list_all (\<lambda>e. e = RequestTerminal \<or> e = RequestAlreadySatisfied) (failures (co_outcomes c)) \<and>
      (failures (co_outcomes c) = [] \<or> cr_units_fulfilled (co_live c) = needed))"

section \<open>Properties of the compatibility table\<close>

lemma scan_entries_set:
  "set (scan_entries es r acc) = set acc \<union> {d. \<exists>cs. (d, cs) \<in> set es \<and> array_includes cs r}"
  by (induction es r acc rule: scan_entries.induct) auto

lemma distinct_table_keys: "distinct (map fst BLOOD_COMPATIBILITY)"
  by (simp add: BLOOD_COMPATIBILITY_def)

lemma table_keys: "map fst BLOOD_COMPATIBILITY = BLOOD_TYPES"
  by (simp add: BLOOD_COMPATIBILITY_def BLOOD_TYPES_def)

lemma blood_type_cases:
  "t \<in> set BLOOD_TYPES \<Longrightarrow>
     t = ''O-'' \<or> t = ''O+'' \<or> t = ''A-'' \<or> t = ''A+'' \<or>
     t = ''B-'' \<or> t = ''B+'' \<or> t = ''AB-'' \<or> t = ''AB+''"
  by (simp add: BLOOD_TYPES_def)

lemma canDonateTo_rule:
  "d \<in> set BLOOD_TYPES \<Longrightarrow> r \<in> set BLOOD_TYPES \<Longrightarrow> canDonateTo d r = Some (abo_rh_rule d r)"
  apply (drule blood_type_cases)
  apply (drule blood_type_cases)
  apply (elim disjE)
  apply (simp_all add: canDonateTo_def BLOOD_COMPATIBILITY_def array_includes_def
      abo_rh_rule_def abo_antigens_def rh_positive_def)
  done

lemma universal_donor: "r \<in> set BLOOD_TYPES \<Longrightarrow> canDonateTo ''O-'' r = Some True"
  by (simp add: canDonateTo_def BLOOD_COMPATIBILITY_def array_includes_def BLOOD_TYPES_def)

lemma universal_recipient: "d \<in> set BLOOD_TYPES \<Longrightarrow> canDonateTo d ''AB+'' = Some True"
  by (drule blood_type_cases, elim disjE)
    (simp_all add: canDonateTo_def BLOOD_COMPATIBILITY_def array_includes_def)

text \<open>
  Claim C2. On the 8 blood types the forward lookup is the ABO/Rh donation rule: a donor
  type \<open>d\<close> may donate to a recipient type \<open>r\<close> exactly when the ABO antigens of \<open>d\<close>
  are among those of \<open>r\<close> and \<open>d\<close> is Rh-negative or \<open>r\<close> is Rh-positive. In
  particular \<open>O-\<close> may donate to every type and every type may donate to \<open>AB+\<close>.
\<close>

theorem compatibility_is_abo_rh_rule:
  assumes "d \<in> set BLOOD_TYPES" and "r \<in> set BLOOD_TYPES"
  shows "canDonateTo d r = Some (abo_rh_rule d r)
    \<and> canDonateTo ''O-'' r = Some True
    \<and> canDonateTo d ''AB+'' = Some True"
  using assms by (simp add: canDonateTo_rule universal_donor universal_recipient)

theorem compatibility_is_abo_rh_rule_witness:
  "''A-'' \<in> set BLOOD_TYPES \<and> ''B+'' \<in> set BLOOD_TYPES
    \<and> canDonateTo ''A-'' ''B+'' = Some False \<and> abo_rh_rule ''A-'' ''B+'' = False
    \<and> canDonateTo ''O-'' ''B+'' = Some True \<and> canDonateTo ''A-'' ''AB+'' = Some True"
proof -
  have d: "''A-'' \<in> set BLOOD_TYPES" and r: "''B+'' \<in> set BLOOD_TYPES"
    by (simp_all add: BLOOD_TYPES_def)
  have rule: "abo_rh_rule ''A-'' ''B+'' = False"
    by (simp add: abo_rh_rule_def abo_antigens_def)
  from compatibility_is_abo_rh_rule [OF d r] d r rule show ?thesis by simp
qed

lemma map_of_distinct_keys:
  "distinct (map fst es) \<Longrightarrow> (map_of es d = Some cs) = ((d, cs) \<in> set es)"
  by auto

lemma reverse_lookup_iff:
  "(d \<in> set (getCompatibleDonorTypes r)) = (canDonateTo d r = Some True)"
proof -
  have "(d \<in> set (getCompatibleDonorTypes r))
      = (\<exists>cs. (d, cs) \<in> set BLOOD_COMPATIBILITY \<and> array_includes cs r)"
    by (simp add: getCompatibleDonorTypes_def scan_entries_set)
  also have "\<dots> = (\<exists>cs. map_of BLOOD_COMPATIBILITY d = Some cs \<and> array_includes cs r)"
    using distinct_table_keys by (simp add: map_of_distinct_keys)
  also have "\<dots> = (canDonateTo d r = Some True)"
    by (auto simp: canDonateTo_def split: option.splits)
  finally show ?thesis .
qed

text \<open>
  Claim C3. The reverse lookup agrees with the forward table: \<open>d\<close> is an element of
  \<open>getCompatibleDonorTypes(r)\<close> exactly when \<open>r\<close> is in \<open>BLOOD_COMPATIBILITY[d]\<close>.
  It holds for all strings \<open>d\<close> and \<open>r\<close>, so for every two of the 8 blood types.
\<close>

theorem reverse_lookup_agrees_with_table:
  "(d \<in> set (getCompatibleDonorTypes r)) = (canDonateTo d r = Some True)
    \<and> (d \<in> set (getCompatibleDonorTypes r))
        = (\<exists>recipients. map_of BLOOD_COMPATIBILITY d = Some recipients \<and> r \<in> set recipients)"
proof -
  have "(canDonateTo d r = Some True)
      = (\<exists>recipients. map_of BLOOD_COMPATIBILITY d = Some recipients \<and> r \<in> set recipients)"
    by (auto simp: canDonateTo_def array_includes_def split: option.splits)
  then show ?thesis
    by (simp add: reverse_lookup_iff)
qed

text \<open>
  Claim C4. \<open>getCompatibleDonorTypes('AB+')\<close> is the list of all 8 blood types, and
  \<open>getCompatibleDonorTypes('O-')\<close> is the one-element list \<open>['O-']\<close>.
\<close>

theorem compatible_donors_of_AB_pos_and_O_neg:
  "getCompatibleDonorTypes ''AB+'' = [''O-'', ''O+'', ''A-'', ''A+'', ''B-'', ''B+'', ''AB-'', ''AB+'']
    \<and> set (getCompatibleDonorTypes ''AB+'') = set BLOOD_TYPES
    \<and> getCompatibleDonorTypes ''O-'' = [''O-'']"
  by (simp add: getCompatibleDonorTypes_def BLOOD_COMPATIBILITY_def array_includes_def
      BLOOD_TYPES_def)

lemma scan_entries_no_hit:
  "\<forall>(d, cs) \<in> set es. \<not> array_includes cs r \<Longrightarrow> scan_entries es r acc = acc"
  by (induction es r acc rule: scan_entries.induct) auto

lemma unknown_recipient_empty: "r \<notin> set BLOOD_TYPES \<Longrightarrow> getCompatibleDonorTypes r = []"
  unfolding getCompatibleDonorTypes_def
  by (rule scan_entries_no_hit)
    (auto simp add: BLOOD_COMPATIBILITY_def BLOOD_TYPES_def array_includes_def)

lemma known_donor_lookup: "d \<in> set BLOOD_TYPES \<Longrightarrow> canDonateTo d r \<noteq> None"
proof -
  assume "d \<in> set BLOOD_TYPES"
  then have "d \<in> fst ` set BLOOD_COMPATIBILITY"
    unfolding table_keys [symmetric] by simp
  then have "map_of BLOOD_COMPATIBILITY d \<noteq> None"
    by (simp add: map_of_eq_None_iff)
  then show ?thesis
    by (auto simp: canDonateTo_def split: option.splits)
qed

text \<open>
  Claim C5, as stated: a lookup with a string that is not one of the 8 blood types fails
  with \<open>UnknownBloodType\<close>. It does not: \<open>getCompatibleDonorTypes('X+')\<close> returns the
  empty array.
\<close>

theorem unknown_type_not_rejected_counterexample:
  "compatibleDonorsFor ''X+'' = Inr [] \<and> compatibleDonorsFor ''X+'' \<noteq> Inl UnknownBloodType"
  by (simp add: compatibleDonorsFor_def getCompatibleDonorTypes_def BLOOD_COMPATIBILITY_def
      array_includes_def)

text \<open>
  Claim C5, amended. For every string that is not one of the 8 blood types,
  \<open>getCompatibleDonorTypes\<close> returns normally, with the empty list, and the forward
  lookup \<open>BLOOD_COMPATIBILITY[d].includes(r)\<close> of a known donor type \<open>d\<close> gives
  \<open>false\<close> for it; no lookup fails with \<open>UnknownBloodType\<close>.
\<close>

theorem unknown_type_gives_empty_result:
  assumes "r \<notin> set BLOOD_TYPES"
  shows "compatibleDonorsFor r = Inr []
    \<and> (d \<in> set BLOOD_TYPES \<longrightarrow> canDonateTo d r = Some False)"
proof -
  have "d \<notin> set (getCompatibleDonorTypes r)"
    using assms by (simp add: unknown_recipient_empty)
  then have no: "canDonateTo d r \<noteq> Some True"
    by (simp add: reverse_lookup_iff [symmetric])
  with known_donor_lookup [of d r] have "d \<in> set BLOOD_TYPES \<longrightarrow> canDonateTo d r = Some False"
    by (cases "canDonateTo d r") auto
  with assms show ?thesis
    by (simp add: compatibleDonorsFor_def unknown_recipient_empty)
qed

theorem unknown_type_gives_empty_result_witness:
  "''X+'' \<notin> set BLOOD_TYPES \<and> compatibleDonorsFor ''X+'' = Inr []
    \<and> ''O-'' \<in> set BLOOD_TYPES \<and> canDonateTo ''O-'' ''X+'' = Some False"
proof -
  have r: "''X+'' \<notin> set BLOOD_TYPES" and d: "''O-'' \<in> set BLOOD_TYPES"
    by (simp_all add: BLOOD_TYPES_def)
  from unknown_type_gives_empty_result [OF r, of "''O-''"] r d show ?thesis by simp
qed

section \<open>Properties of the auth store\<close>

lemma pairs_token_simps:
  "t \<noteq> None \<Longrightarrow> pairs_token (signed_in t u)"
  "pairs_token signed_out" "pairs_token loading_done"
  "pairs_token (no_fields\<lparr>user_p := x\<rparr>)"
  "t \<noteq> None \<Longrightarrow> pairs_token ((signed_in t u)\<lparr>isLoading_p := y\<rparr>)"
  by (simp_all add: pairs_token_def signed_in_def signed_out_def loading_done_def no_fields_def)

lemma zustand_set_keeps:
  "pairs_token p \<Longrightarrow> auth_invariant s \<Longrightarrow> auth_invariant (zustand_set p s)"
  by (auto simp: pairs_token_def auth_invariant_def zustand_set_def split: option.splits)

lemma truthy_not_None: "truthy v \<Longrightarrow> v \<noteq> None"
  by (cases v) (simp_all add: truthy_def)

lemma null_token_sign_in_iff:
  "null_token_sign_in (Login (Resolved (t, u)) (Resolved x) (Resolved y)) = (t = None)"
  "null_token_sign_in (Register (Resolved (t, u)) (Resolved x) (Resolved y)) = (t = None)"
  by (cases t; simp)+

lemma login_pairs:
  "\<not> null_token_sign_in (Login r a b) \<Longrightarrow> p \<in> set (fst (login r a b)) \<Longrightarrow> pairs_token p"
  by (cases r; cases a; cases b) (auto simp: login_def pairs_token_simps null_token_sign_in_iff)

lemma register_pairs:
  "\<not> null_token_sign_in (Register r a b) \<Longrightarrow> p \<in> set (fst (register r a b)) \<Longrightarrow> pairs_token p"
  by (cases r; cases a; cases b) (auto simp: register_def pairs_token_simps null_token_sign_in_iff)

lemma logout_pairs: "p \<in> set (fst (logout a b)) \<Longrightarrow> pairs_token p"
  by (auto simp: logout_def pairs_token_simps split: awaited.splits)

lemma loadUser_pairs: "p \<in> set (fst (loadUser J t u m a b c)) \<Longrightarrow> pairs_token p"
  by (auto simp: loadUser_def Let_def pairs_token_simps truthy_not_None
      split: awaited.splits option.splits if_splits)

lemma updateDonorProfile_pairs: "p \<in> set (fst (updateDonorProfile s r a)) \<Longrightarrow> pairs_token p"
  by (auto simp: updateDonorProfile_def pairs_token_simps split: awaited.splits)

lemma refreshUser_pairs: "p \<in> set (fst (refreshUser s r a)) \<Longrightarrow> pairs_token p"
  by (auto simp: refreshUser_def pairs_token_simps split: awaited.splits if_splits)

lemma effect_pairs:
  "\<not> null_token_sign_in c \<Longrightarrow> p \<in> set (fst (effect_of J s c)) \<Longrightarrow> pairs_token p"
  by (cases c)
    (simp_all add: login_pairs register_pairs logout_pairs loadUser_pairs
      updateDonorProfile_pairs refreshUser_pairs)

lemma apply_sets_keeps:
  "(\<And>p. p \<in> set ps \<Longrightarrow> pairs_token p) \<Longrightarrow> auth_invariant s \<Longrightarrow> auth_invariant (apply_sets ps s)"
  unfolding apply_sets_def
  by (induction ps arbitrary: s) (simp_all add: zustand_set_keeps)

lemma null_token_sign_in_cases:
  "null_token_sign_in c \<Longrightarrow>
     (\<exists>u. c = Login (Resolved (None, u)) (Resolved ()) (Resolved ()))
     \<or> (\<exists>u. c = Register (Resolved (None, u)) (Resolved ()) (Resolved ()))"
  by (induction c rule: null_token_sign_in.induct) simp_all

lemma null_token_sign_in_breaks:
  "null_token_sign_in c \<Longrightarrow> \<not> auth_invariant (run_call J s c)"
  by (drule null_token_sign_in_cases)
    (auto simp: run_call_def apply_sets_def login_def register_def signed_in_def no_fields_def
      zustand_set_def auth_invariant_def)

text \<open>
  Claim C9, as stated: every operation of the auth store keeps \<open>isAuthenticated\<close> true
  exactly when \<open>token\<close> is not null, on its success and error paths. When the login
  response resolves with a null \<open>access_token\<close>, the success path of \<open>login\<close> stores
  the null token together with \<open>isAuthenticated: true\<close>.
\<close>

theorem null_token_login_counterexample:
  "auth_invariant (initialAuthState :: nat AuthState)
    \<and> token (run_call (\<lambda>_. None) (initialAuthState :: nat AuthState)
         (Login (Resolved (None, 7)) (Resolved ()) (Resolved ()))) = None
    \<and> isAuthenticated (run_call (\<lambda>_. None) (initialAuthState :: nat AuthState)
         (Login (Resolved (None, 7)) (Resolved ()) (Resolved ())))
    \<and> \<not> auth_invariant (run_call (\<lambda>_. None) (initialAuthState :: nat AuthState)
         (Login (Resolved (None, 7)) (Resolved ()) (Resolved ())))"
  by (simp add: run_call_def apply_sets_def login_def signed_in_def no_fields_def zustand_set_def
      auth_invariant_def initialAuthState_def)

text \<open>
  Claim C9, amended. The auth store keeps \<open>isAuthenticated\<close> true exactly when
  \<open>token\<close> is not null: the initial state satisfies it, and from a state that satisfies
  it every call of \<open>logout\<close>, \<open>loadUser\<close>, \<open>refreshUser\<close> or \<open>updateDonorProfile\<close>,
  with any outcome of what it awaits, keeps it, and so does every call of \<open>login\<close> or
  \<open>register\<close> on its error paths and, when the response carries a non-null
  \<open>access_token\<close>, on its success path. It then also holds after each single \<open>set\<close>
  call on the way, and each such \<open>set\<close> call keeps it on any state that satisfies it. A
  \<open>login\<close> or \<open>register\<close> that succeeds with a null \<open>access_token\<close> breaks it.
\<close>

theorem auth_invariant_maintained:
  assumes "auth_invariant s"
  shows "auth_invariant (initialAuthState :: 'u AuthState)
    \<and> (\<not> null_token_sign_in c \<longrightarrow>
          auth_invariant (run_call JSON_parse s c)
          \<and> (\<forall>k \<le> length (fst (effect_of JSON_parse s c)).
                auth_invariant (apply_sets (take k (fst (effect_of JSON_parse s c))) s)))
    \<and> (null_token_sign_in c \<longrightarrow> \<not> auth_invariant (run_call JSON_parse s c))
    \<and> (\<not> null_token_sign_in c' \<longrightarrow>
          (\<forall>p \<in> set (fst (effect_of JSON_parse s' c')). auth_invariant (zustand_set p s)))"
proof -
  have init: "auth_invariant (initialAuthState :: 'u AuthState)"
    by (simp add: auth_invariant_def initialAuthState_def)
  have prefix: "auth_invariant (apply_sets (take k (fst (effect_of JSON_parse s c))) s)"
    if "\<not> null_token_sign_in c" for k
  proof (rule apply_sets_keeps)
    fix p assume "p \<in> set (take k (fst (effect_of JSON_parse s c)))"
    then have "p \<in> set (fst (effect_of JSON_parse s c))" by (rule in_set_takeD)
    with that show "pairs_token p" by (rule effect_pairs)
  qed (rule assms)
  have run: "auth_invariant (run_call JSON_parse s c)" if "\<not> null_token_sign_in c"
    using prefix [OF that, of "length (fst (effect_of JSON_parse s c))"]
    by (simp add: run_call_def)
  have one: "auth_invariant (zustand_set p s)"
    if "\<not> null_token_sign_in c'" "p \<in> set (fst (effect_of JSON_parse s' c'))" for p
    using effect_pairs [OF that] assms by (rule zustand_set_keeps)
  have broken: "null_token_sign_in c \<longrightarrow> \<not> auth_invariant (run_call JSON_parse s c)"
    by (simp add: null_token_sign_in_breaks)
  have kept: "\<not> null_token_sign_in c \<longrightarrow>
          auth_invariant (run_call JSON_parse s c)
          \<and> (\<forall>k \<le> length (fst (effect_of JSON_parse s c)).
                auth_invariant (apply_sets (take k (fst (effect_of JSON_parse s c))) s))"
    using run prefix by simp
  have each: "\<not> null_token_sign_in c' \<longrightarrow>
          (\<forall>p \<in> set (fst (effect_of JSON_parse s' c')). auth_invariant (zustand_set p s))"
    using one by simp
  from init kept broken each show ?thesis by (intro conjI)
qed

theorem auth_invariant_maintained_witness:
  "auth_invariant (initialAuthState :: nat AuthState)
    \<and> \<not> null_token_sign_in (Login (Resolved (Some ''jwt'', 7 :: nat)) (Resolved ()) (Resolved ()))
    \<and> auth_invariant (run_call (\<lambda>_. None) (initialAuthState :: nat AuthState)
         (Login (Resolved (Some ''jwt'', 7)) (Resolved ()) (Resolved ())))
    \<and> token (run_call (\<lambda>_. None) (initialAuthState :: nat AuthState)
         (Login (Resolved (Some ''jwt'', 7)) (Resolved ()) (Resolved ()))) = Some ''jwt''"
proof -
  have i: "auth_invariant (initialAuthState :: nat AuthState)"
    by (simp add: auth_invariant_def initialAuthState_def)
  have n: "\<not> null_token_sign_in (Login (Resolved (Some ''jwt'', 7 :: nat)) (Resolved ()) (Resolved ()))"
    by simp
  have t: "token (run_call (\<lambda>_. None) (initialAuthState :: nat AuthState)
         (Login (Resolved (Some ''jwt'', 7)) (Resolved ()) (Resolved ()))) = Some ''jwt''"
    by (simp add: run_call_def apply_sets_def login_def signed_in_def no_fields_def zustand_set_def)
  from auth_invariant_maintained [OF i, of "Login (Resolved (Some ''jwt'', 7)) (Resolved ()) (Resolved ())"
      "\<lambda>_. None" "Logout (Resolved ()) (Resolved ())" initialAuthState,
      THEN conjunct2, THEN conjunct1] n
  have r: "auth_invariant (run_call (\<lambda>_. None) (initialAuthState :: nat AuthState)
         (Login (Resolved (Some ''jwt'', 7)) (Resolved ()) (Resolved ())))"
    by simp
  from i n r t show ?thesis by (intro conjI)
qed

section \<open>Properties of the notification list\<close>

lemma mark_one_distinct:
  assumes "distinct (map n_id ns)" "k < length ns"
  shows "map (\<lambda>n. if n_id n = n_id (ns ! k) then n\<lparr>n_is_read := True\<rparr> else n) ns
       = ns[k := (ns ! k)\<lparr>n_is_read := True\<rparr>]"
proof (rule nth_equalityI)
  show "length (map (\<lambda>n. if n_id n = n_id (ns ! k) then n\<lparr>n_is_read := True\<rparr> else n) ns)
      = length (ns[k := (ns ! k)\<lparr>n_is_read := True\<rparr>])" by simp
next
  fix i assume "i < length (map (\<lambda>n. if n_id n = n_id (ns ! k) then n\<lparr>n_is_read := True\<rparr> else n) ns)"
  then have i: "i < length ns" by simp
  have "(n_id (ns ! i) = n_id (ns ! k)) = (i = k)"
    using assms i nth_eq_iff_index_eq [of "map n_id ns" i k] by simp
  with i show "map (\<lambda>n. if n_id n = n_id (ns ! k) then n\<lparr>n_is_read := True\<rparr> else n) ns ! i
      = ns[k := (ns ! k)\<lparr>n_is_read := True\<rparr>] ! i"
    by (simp add: nth_list_update)
qed

lemma already_read_update:
  "k < length ns \<Longrightarrow> n_is_read (ns ! k) \<Longrightarrow> ns[k := (ns ! k)\<lparr>n_is_read := True\<rparr>] = ns"
  by (simp add: list_update_same_conv)

text \<open>
  Claim C10, as stated: for every notification list, \<open>handleNotificationPress\<close> sets
  \<open>is_read\<close> on exactly the pressed notification and leaves every other notification
  unchanged. In a list where a second notification has the id of the pressed one, the
  update marks both.
\<close>

theorem repeated_id_counterexample:
  "fst (handleNotificationPress
        \<lparr>n_id = ''n1'', n_user_id = ''u1'', n_title = ''Match'', n_message = ''A donor accepted'',
          n_type = ''match'', n_is_read = False, n_data = Some ''r1'', n_created_at = ''2024-05-01''\<rparr>
        True
        [\<lparr>n_id = ''n1'', n_user_id = ''u1'', n_title = ''Match'', n_message = ''A donor accepted'',
           n_type = ''match'', n_is_read = False, n_data = Some ''r1'', n_created_at = ''2024-05-01''\<rparr>,
         \<lparr>n_id = ''n1'', n_user_id = ''u1'', n_title = ''Request'', n_message = ''Blood needed'',
           n_type = ''request'', n_is_read = False, n_data = None, n_created_at = ''2024-05-02''\<rparr>])
     = [\<lparr>n_id = ''n1'', n_user_id = ''u1'', n_title = ''Match'', n_message = ''A donor accepted'',
           n_type = ''match'', n_is_read = True, n_data = Some ''r1'', n_created_at = ''2024-05-01''\<rparr>,
         \<lparr>n_id = ''n1'', n_user_id = ''u1'', n_title = ''Request'', n_message = ''Blood needed'',
           n_type = ''request'', n_is_read = True, n_data = None, n_created_at = ''2024-05-02''\<rparr>]"
  by (simp add: handleNotificationPress_def)

text \<open>
  Claim C10, amended. Marking notifications read changes only \<open>is_read\<close> flags.
  Pressing the notification at position \<open>k\<close> keeps the length of the list, its order
  and every field but \<open>is_read\<close> (the lists are equal once the flags are erased) and
  leaves every notification with another id as it is; when the server call resolves, the
  pressed notification is read afterwards, and so is every notification with its id if it
  was unread; when the ids in the list are distinct the new list is the old one with
  \<open>is_read\<close> set at position \<open>k\<close> only. \<open>handleMarkAllRead\<close> keeps length, order and the other fields and sets
  \<open>is_read\<close> on every notification. When the server call is rejected the list is
  unchanged.
\<close>

theorem marking_read_changes_only_is_read:
  assumes "k < length ns"
  shows "length (fst (handleNotificationPress (ns ! k) marked ns)) = length ns
    \<and> map (n_is_read_update (\<lambda>_. False)) (fst (handleNotificationPress (ns ! k) marked ns))
        = map (n_is_read_update (\<lambda>_. False)) ns
    \<and> (\<forall>i < length ns. n_id (ns ! i) \<noteq> n_id (ns ! k) \<longrightarrow>
          fst (handleNotificationPress (ns ! k) marked ns) ! i = ns ! i)
    \<and> (marked \<longrightarrow> n_is_read (fst (handleNotificationPress (ns ! k) marked ns) ! k))
    \<and> (marked \<and> \<not> n_is_read (ns ! k) \<longrightarrow>
          (\<forall>i < length ns. n_id (ns ! i) = n_id (ns ! k) \<longrightarrow>
             n_is_read (fst (handleNotificationPress (ns ! k) marked ns) ! i)))
    \<and> (marked \<and> distinct (map n_id ns) \<longrightarrow>
          fst (handleNotificationPress (ns ! k) marked ns) = ns[k := (ns ! k)\<lparr>n_is_read := True\<rparr>])
    \<and> (\<not> marked \<longrightarrow> fst (handleNotificationPress (ns ! k) marked ns) = ns)
    \<and> length (handleMarkAllRead marked ns) = length ns
    \<and> map (n_is_read_update (\<lambda>_. False)) (handleMarkAllRead marked ns)
        = map (n_is_read_update (\<lambda>_. False)) ns
    \<and> (marked \<longrightarrow> (\<forall>i < length ns. handleMarkAllRead marked ns ! i = (ns ! i)\<lparr>n_is_read := True\<rparr>))
    \<and> (\<not> marked \<longrightarrow> handleMarkAllRead marked ns = ns)"
  using assms
  by (auto simp: handleNotificationPress_def handleMarkAllRead_def mark_one_distinct
      already_read_update)

theorem marking_read_changes_only_is_read_witness:
  "(0::nat) < length
      [\<lparr>n_id = ''n1'', n_user_id = ''u1'', n_title = ''Match'', n_message = ''A donor accepted'',
         n_type = ''match'', n_is_read = False, n_data = Some ''r1'', n_created_at = ''2024-05-01''\<rparr>,
       \<lparr>n_id = ''n2'', n_user_id = ''u1'', n_title = ''Request'', n_message = ''Blood needed'',
         n_type = ''request'', n_is_read = False, n_data = None, n_created_at = ''2024-05-02''\<rparr>]
   \<and> fst (handleNotificationPress
        \<lparr>n_id = ''n1'', n_user_id = ''u1'', n_title = ''Match'', n_message = ''A donor accepted'',
          n_type = ''match'', n_is_read = False, n_data = Some ''r1'', n_created_at = ''2024-05-01''\<rparr>
        True
        [\<lparr>n_id = ''n1'', n_user_id = ''u1'', n_title = ''Match'', n_message = ''A donor accepted'',
           n_type = ''match'', n_is_read = False, n_data = Some ''r1'', n_created_at = ''2024-05-01''\<rparr>,
         \<lparr>n_id = ''n2'', n_user_id = ''u1'', n_title = ''Request'', n_message = ''Blood needed'',
           n_type = ''request'', n_is_read = False, n_data = None, n_created_at = ''2024-05-02''\<rparr>])
     = [\<lparr>n_id = ''n1'', n_user_id = ''u1'', n_title = ''Match'', n_message = ''A donor accepted'',
           n_type = ''match'', n_is_read = True, n_data = Some ''r1'', n_created_at = ''2024-05-01''\<rparr>,
         \<lparr>n_id = ''n2'', n_user_id = ''u1'', n_title = ''Request'', n_message = ''Blood needed'',
           n_type = ''request'', n_is_read = False, n_data = None, n_created_at = ''2024-05-02''\<rparr>]"
proof -
  define n1 where "n1 =
    \<lparr>n_id = ''n1'', n_user_id = ''u1'', n_title = ''Match'', n_message = ''A donor accepted'',
      n_type = ''match'', n_is_read = False, n_data = Some ''r1'', n_created_at = ''2024-05-01''\<rparr>"
  define n2 where "n2 =
    \<lparr>n_id = ''n2'', n_user_id = ''u1'', n_title = ''Request'', n_message = ''Blood needed'',
      n_type = ''request'', n_is_read = False, n_data = None, n_created_at = ''2024-05-02''\<rparr>"
  have k: "(0::nat) < length [n1, n2]" by simp
  have d: "distinct (map n_id [n1, n2])" by (simp add: n1_def n2_def)
  from marking_read_changes_only_is_read [OF k, of True] d
  have "fst (handleNotificationPress ([n1, n2] ! 0) True [n1, n2])
      = [n1, n2][0 := ([n1, n2] ! 0)\<lparr>n_is_read := True\<rparr>]"
    by blast
  then have "fst (handleNotificationPress n1 True [n1, n2]) = [n1\<lparr>n_is_read := True\<rparr>, n2]"
    by simp
  then show ?thesis
    unfolding n1_def n2_def by simp
qed

section \<open>Properties of the create-request form\<close>

lemma parse_options:
  "parseInt ''1'' = Exact 1" "parseInt ''2'' = Exact 2" "parseInt ''3'' = Exact 3"
  "parseInt ''4'' = Exact 4" "parseInt ''5+'' = Exact 5"
  by (simp_all add: parseInt_def Let_def is_white_space_def is_radix_digit_def digit_value_def
      digits_value_def)

lemma units_of_option:
  "unit \<in> set unit_options \<Longrightarrow>
     units_or_one unit = parseInt unit \<and> (\<exists>n. units_or_one unit = Exact n \<and> 1 \<le> n \<and> n \<le> 5)"
  by (auto simp: unit_options_def units_or_one_def parse_options)

lemma reachable_units_option: "form_reachable f \<Longrightarrow> f_unitsNeeded f \<in> set unit_options"
  by (induction rule: form_reachable.induct) (simp_all add: initialForm_def unit_options_def)

text \<open>
  Claim C8. In every state the create-request form can reach, the units selector holds
  one of the offered options \<open>'1'\<close> to \<open>'5+'\<close>, and the \<open>units_needed\<close> that
  \<open>handleSubmit\<close> submits is \<open>parseInt\<close> of it with fallback 1 (the fallback is
  never taken there): a positive integer, at least 1 and at most 5.
\<close>

theorem submitted_units_needed:
  assumes "form_reachable f" and "handleSubmit f = Some d"
  shows "f_unitsNeeded f \<in> set unit_options
    \<and> c_units_needed d
        = (case parseInt (f_unitsNeeded f) of
             NaN \<Rightarrow> Exact 1
           | Exact n \<Rightarrow> if n = 0 then Exact 1 else Exact n
           | Rounded n \<Rightarrow> Rounded n)
    \<and> c_units_needed d = parseInt (f_unitsNeeded f)
    \<and> (\<exists>n. c_units_needed d = Exact n \<and> 1 \<le> n \<and> n \<le> 5)"
proof -
  from assms(2) have u: "c_units_needed d = units_or_one (f_unitsNeeded f)"
    by (auto simp: handleSubmit_def split: if_splits)
  have o: "f_unitsNeeded f \<in> set unit_options"
    using assms(1) by (rule reachable_units_option)
  have a: "c_units_needed d
        = (case parseInt (f_unitsNeeded f) of
             NaN \<Rightarrow> Exact 1
           | Exact n \<Rightarrow> if n = 0 then Exact 1 else Exact n
           | Rounded n \<Rightarrow> Rounded n)"
    by (simp add: u units_or_one_def)
  have b: "c_units_needed d = parseInt (f_unitsNeeded f)"
    using units_of_option [OF o, THEN conjunct1] by (simp add: u)
  have c: "\<exists>n. c_units_needed d = Exact n \<and> 1 \<le> n \<and> n \<le> 5"
    using units_of_option [OF o, THEN conjunct2] by (simp add: u)
  from o a b c show ?thesis by (intro conjI)
qed

theorem submitted_units_needed_witness:
  "form_reachable ((initialForm :: unit CreateRequestForm)\<lparr>f_unitsNeeded := ''5+''\<rparr>\<lparr>f_bloodType := ''O+''\<rparr>)
   \<and> map_option c_units_needed
       (handleSubmit ((initialForm :: unit CreateRequestForm)\<lparr>f_unitsNeeded := ''5+''\<rparr>\<lparr>f_bloodType := ''O+''\<rparr>))
     = Some (Exact 5)"
proof -
  let ?f = "(initialForm :: unit CreateRequestForm)\<lparr>f_unitsNeeded := ''5+''\<rparr>\<lparr>f_bloodType := ''O+''\<rparr>"
  have r: "form_reachable ?f"
    by (intro form_reachable.intros) (simp_all add: unit_options_def BLOOD_TYPES_def)
  obtain d where d: "handleSubmit ?f = Some d"
    by (simp add: handleSubmit_def initialForm_def)
  from submitted_units_needed [OF r d, THEN conjunct2, THEN conjunct2, THEN conjunct1]
  have "c_units_needed d = parseInt (f_unitsNeeded ?f)" .
  then have "c_units_needed d = Exact 5"
    by (simp add: parse_options)
  with r d show ?thesis by simp
qed

section \<open>Properties of the matching and fulfillment core\<close>

lemma set_insert_ranked: "set (insert_ranked m xs) = insert m (set xs)"
  by (induction xs) auto

lemma set_rank_matches: "set (rank_matches ms) = set ms"
  unfolding rank_matches_def by (induction ms) (simp_all add: set_insert_ranked)

lemma selected_from_available:
  assumes "m \<in> set (selectMatches cfg distance score today request candidateDonors)"
  shows "\<exists>d \<in> set candidateDonors. dn_is_available d \<and> m = propose distance score request d"
proof -
  from assms have "m \<in> set (rank_matches (map (propose distance score request)
      (filter (\<lambda>d. distance (dn_coordinate d) (cr_coordinate request) \<le> search_radius cfg)
        (filter (\<lambda>d. canDonateTo (dn_blood_type d) (cr_blood_type request) = Some True)
          (filter (outside_cooldown cfg today) (filter dn_is_available candidateDonors))))))"
    unfolding selectMatches_def Let_def by (rule in_set_takeD)
  then show ?thesis
    by (auto simp: set_rank_matches)
qed

text \<open>
  Claim C7. Every match that \<open>selectMatches\<close> returns, for every request and every list
  of candidate donors, has \<open>is_available\<close> true.
\<close>

theorem selected_matches_are_available:
  assumes "m \<in> set (selectMatches cfg distance score today request candidateDonors)"
  shows "cm_is_available m = True"
  using selected_from_available [OF assms] by (auto simp: propose_def)


theorem selected_matches_are_available_witness:
  "\<lparr>cm_donor_id = ''d1'', cm_donor_name = ''Asha'', cm_blood_type = ''O-'', cm_distance_km = 3,
     cm_compatibility_score = 97, cm_status = Proposed, cm_is_available = True\<rparr>
    \<in> set (selectMatches \<lparr>cooldown_days = 90, search_radius = 50, top_n = 5\<rparr>
          (\<lambda>a b. real_of_int \<bar>a - b\<bar>) (\<lambda>request d km. 100 - km) 400
          \<lparr>cr_id = ''r1'', cr_requester = ''u1'', cr_blood_type = ''A+'', cr_units_needed = 2,
            cr_units_fulfilled = 0, cr_urgency = ''urgent'', cr_status = Pending, cr_matches = [],
            cr_coordinate = 0\<rparr>
          [\<lparr>dn_id = ''d1'', dn_name = ''Asha'', dn_blood_type = ''O-'', dn_coordinate = 3,
             dn_is_available = True, dn_last_donation = None, dn_response_probability = 1\<rparr>,
           \<lparr>dn_id = ''d2'', dn_name = ''Ben'', dn_blood_type = ''O-'', dn_coordinate = 1,
             dn_is_available = False, dn_last_donation = None, dn_response_probability = 1\<rparr>])
   \<and> cm_is_available
        \<lparr>cm_donor_id = ''d1'', cm_donor_name = ''Asha'', cm_blood_type = ''O-'', cm_distance_km = 3,
          cm_compatibility_score = 97, cm_status = Proposed, cm_is_available = True\<rparr> = True"
proof -
  have sel: "selectMatches \<lparr>cooldown_days = 90, search_radius = 50, top_n = 5\<rparr>
          (\<lambda>a b. real_of_int \<bar>a - b\<bar>) (\<lambda>request d km. 100 - km) 400
          \<lparr>cr_id = ''r1'', cr_requester = ''u1'', cr_blood_type = ''A+'', cr_units_needed = 2,
            cr_units_fulfilled = 0, cr_urgency = ''urgent'', cr_status = Pending, cr_matches = [],
            cr_coordinate = 0\<rparr>
          [\<lparr>dn_id = ''d1'', dn_name = ''Asha'', dn_blood_type = ''O-'', dn_coordinate = 3,
             dn_is_available = True, dn_last_donation = None, dn_response_probability = 1\<rparr>,
           \<lparr>dn_id = ''d2'', dn_name = ''Ben'', dn_blood_type = ''O-'', dn_coordinate = 1,
             dn_is_available = False, dn_last_donation = None, dn_response_probability = 1\<rparr>]
      = [\<lparr>cm_donor_id = ''d1'', cm_donor_name = ''Asha'', cm_blood_type = ''O-'', cm_distance_km = 3,
           cm_compatibility_score = 97, cm_status = Proposed, cm_is_available = True\<rparr>]"
    by (simp add: selectMatches_def Let_def outside_cooldown_def canDonateTo_def
        BLOOD_COMPATIBILITY_def array_includes_def propose_def rank_matches_def)
  have mem: "\<lparr>cm_donor_id = ''d1'', cm_donor_name = ''Asha'', cm_blood_type = ''O-'', cm_distance_km = 3,
     cm_compatibility_score = 97, cm_status = Proposed, cm_is_available = True\<rparr>
    \<in> set (selectMatches \<lparr>cooldown_days = 90, search_radius = 50, top_n = 5\<rparr>
          (\<lambda>a b. real_of_int \<bar>a - b\<bar>) (\<lambda>request d km. 100 - km) 400
          \<lparr>cr_id = ''r1'', cr_requester = ''u1'', cr_blood_type = ''A+'', cr_units_needed = 2,
            cr_units_fulfilled = 0, cr_urgency = ''urgent'', cr_status = Pending, cr_matches = [],
            cr_coordinate = 0\<rparr>
          [\<lparr>dn_id = ''d1'', dn_name = ''Asha'', dn_blood_type = ''O-'', dn_coordinate = 3,
             dn_is_available = True, dn_last_donation = None, dn_response_probability = 1\<rparr>,
           \<lparr>dn_id = ''d2'', dn_name = ''Ben'', dn_blood_type = ''O-'', dn_coordinate = 1,
             dn_is_available = False, dn_last_donation = None, dn_response_probability = 1\<rparr>])"
    unfolding sel by simp
  from mem selected_matches_are_available [OF mem] show ?thesis by (intro conjI)
qed

lemma find_set_match_status_other:
  "d' \<noteq> d \<Longrightarrow> find (\<lambda>m. cm_donor_id m = d') (set_match_status d st ms)
     = find (\<lambda>m. cm_donor_id m = d') ms"
  by (induction ms) auto

lemma acceptMatch_phases:
  "acceptMatch r d =
     (case load_and_check r d of Inl e \<Rightarrow> Inl e | Inr m \<Rightarrow> commit_accept r d m)"
  by (simp add: acceptMatch_def load_and_check_def commit_accept_def split: option.splits)

lemma load_proposed:
  "proposed_for r d \<Longrightarrow>
     (is_terminal (cr_status r) \<longrightarrow> load_and_check r d = Inl RequestTerminal)
     \<and> (\<not> is_terminal (cr_status r) \<longrightarrow> (\<exists>m. load_and_check r d = Inr m))"
  by (auto simp: proposed_for_def load_and_check_def split: option.splits)

lemma commit_full:
  "settled r \<Longrightarrow> cr_units_fulfilled r = cr_units_needed r \<Longrightarrow>
     commit_accept r d m = Inl RequestAlreadySatisfied"
  by (simp add: commit_accept_def)

lemma commit_open:
  assumes "settled r" "cr_units_fulfilled r \<noteq> cr_units_needed r"
  shows "\<exists>r' m'. commit_accept r d m = Inr (r', m') \<and> settled r'
    \<and> cr_units_fulfilled r' = cr_units_fulfilled r + 1 \<and> cr_units_needed r' = cr_units_needed r
    \<and> (\<forall>d'. d' \<noteq> d \<longrightarrow> proposed_for r' d' = proposed_for r d')"
  using assms
  by (auto simp: settled_def proposed_for_def commit_accept_def units_in_range_def
      Let_def find_set_match_status_other)

lemma commit_fails_satisfied:
  "commit_accept r d m = Inl e \<Longrightarrow> e = RequestAlreadySatisfied"
  by (auto simp: commit_accept_def Let_def split: if_splits)

lemma succeeded_snoc:
  "succeeded (outs @ [Inl e]) = succeeded outs" "succeeded (outs @ [Inr m]) = Suc (succeeded outs)"
  by (simp_all add: succeeded_def)

lemma failures_snoc:
  "failures (outs @ [Inl e]) = failures outs @ [e]" "failures (outs @ [Inr m]) = failures outs"
  by (simp_all add: failures_def)

lemma outcomes_count: "length outs = succeeded outs + length (failures outs)"
  unfolding succeeded_def failures_def
  by (induction outs) auto

lemma step_load:
  assumes "on_track n c" "d \<notin> fst ` set (co_in_flight c)" "proposed_for (co_live c) d"
  shows "on_track n (step c (Load d))
    \<and> co_live (step c (Load d)) = co_live c
    \<and> length (co_outcomes (step c (Load d))) + length (co_in_flight (step c (Load d)))
        = Suc (length (co_outcomes c) + length (co_in_flight c))
    \<and> fst ` set (co_in_flight (step c (Load d))) \<subseteq> insert d (fst ` set (co_in_flight c))"
proof (cases "is_terminal (cr_status (co_live c))")
  case True
  with load_proposed [OF assms(3)] have l: "load_and_check (co_live c) d = Inl RequestTerminal"
    by simp
  from True assms(1) have "cr_units_fulfilled (co_live c) = n"
    by (auto simp: on_track_def settled_def is_terminal_def)
  with assms(1) show ?thesis
    by (auto simp: l on_track_def succeeded_snoc failures_snoc)
next
  case False
  with load_proposed [OF assms(3)] obtain m where l: "load_and_check (co_live c) d = Inr m"
    by auto
  from assms show ?thesis
    by (auto simp: l on_track_def)
qed

lemma in_flight_filter:
  "distinct (map fst ps) \<Longrightarrow> distinct (map fst (filter (\<lambda>p. fst p \<noteq> d) ps))"
  by (induction ps) auto

lemma in_flight_absent:
  "d \<notin> fst ` set ps \<Longrightarrow> filter (\<lambda>p. fst p \<noteq> d) ps = ps"
  by (induction ps) auto

lemma in_flight_remove:
  "distinct (map fst ps) \<Longrightarrow> (d, m) \<in> set ps \<Longrightarrow>
     Suc (length (filter (\<lambda>p. fst p \<noteq> d) ps)) = length ps"
proof (induction ps)
  case Nil
  then show ?case by simp
next
  case (Cons p ps)
  show ?case
  proof (cases "fst p = d")
    case True
    with Cons.prems(1) have "d \<notin> fst ` set ps" by auto
    then show ?thesis using True by (simp add: in_flight_absent)
  next
    case False
    with Cons.prems have "(d, m) \<in> set ps" and "distinct (map fst ps)" by auto
    with Cons.IH False show ?thesis by simp
  qed
qed

lemma step_commit:
  assumes "on_track n c"
  shows "on_track n (step c (Commit d))
    \<and> length (co_outcomes (step c (Commit d))) + length (co_in_flight (step c (Commit d)))
        = length (co_outcomes c) + length (co_in_flight c)
    \<and> fst ` set (co_in_flight (step c (Commit d))) \<subseteq> fst ` set (co_in_flight c)
    \<and> (\<forall>d'. d' \<notin> fst ` set (co_in_flight c) \<longrightarrow>
          proposed_for (co_live (step c (Commit d))) d' = proposed_for (co_live c) d')"
proof (cases "map_of (co_in_flight c) d")
  case None
  with assms show ?thesis by simp
next
  case (Some m)
  then have mem: "(d, m) \<in> set (co_in_flight c)" by (rule map_of_SomeD)
  from assms have dist: "distinct (map fst (co_in_flight c))" by (simp add: on_track_def)
  note len = in_flight_remove [OF dist mem]
  note dist' = in_flight_filter [OF dist, of d]
  from assms have st: "settled (co_live c)" by (simp add: on_track_def)
  show ?thesis
  proof (cases "cr_units_fulfilled (co_live c) = cr_units_needed (co_live c)")
    case True
    note full = commit_full [OF st True, of d m]
    from assms True dist' len show ?thesis
      by (auto simp: Some full on_track_def succeeded_snoc failures_snoc list_all_iff)
  next
    case False
    from commit_open [OF st False, of d m]
    obtain r' m' where acc: "commit_accept (co_live c) d m = Inr (r', m')" and s': "settled r'"
      and uf: "cr_units_fulfilled r' = cr_units_fulfilled (co_live c) + 1"
      and un: "cr_units_needed r' = cr_units_needed (co_live c)"
      and others: "\<And>d'. d' \<noteq> d \<Longrightarrow> proposed_for r' d' = proposed_for (co_live c) d'"
      by blast
    have away: "d' \<noteq> d" if "d' \<notin> fst ` set (co_in_flight c)" for d'
      using that mem by (auto simp: rev_image_eqI)
    from assms False dist' len s' show ?thesis
      by (auto simp: Some acc on_track_def succeeded_snoc failures_snoc list_all_iff uf un
          others away)
  qed
qed

lemma loads_append: "loads (xs @ ys) = loads xs @ loads ys"
  by (induction xs rule: loads.induct) simp_all

lemma run_on_track:
  assumes "on_track n c" "distinct (loads es)"
    "set (loads es) \<inter> fst ` set (co_in_flight c) = {}"
    "\<And>d. d \<in> set (loads es) \<Longrightarrow> proposed_for (co_live c) d"
  shows "on_track n (foldl step c es)
    \<and> length (co_outcomes (foldl step c es)) + length (co_in_flight (foldl step c es))
        = length (co_outcomes c) + length (co_in_flight c) + length (loads es)"
  using assms
proof (induction es arbitrary: c)
  case Nil
  then show ?case by simp
next
  case (Cons e es)
  show ?case
  proof (cases e)
    case (Load d)
    have fresh: "d \<notin> fst ` set (co_in_flight c)" and pd: "proposed_for (co_live c) d"
      using Cons.prems(3,4) Load by auto
    note sl = step_load [OF Cons.prems(1) fresh pd]
    have t: "on_track n (step c (Load d))" using sl by simp
    have live: "co_live (step c (Load d)) = co_live c" using sl by simp
    have sub: "fst ` set (co_in_flight (step c (Load d))) \<subseteq> insert d (fst ` set (co_in_flight c))"
      using sl by simp
    have d1: "distinct (loads es)" and notin: "d \<notin> set (loads es)"
      using Cons.prems(2) Load by simp_all
    have dj: "set (loads es) \<inter> fst ` set (co_in_flight (step c (Load d))) = {}"
      using sub notin Cons.prems(3) Load by auto
    have pr: "\<And>d'. d' \<in> set (loads es) \<Longrightarrow> proposed_for (co_live (step c (Load d))) d'"
      unfolding live using Cons.prems(4) Load by simp
    have cnt: "length (co_outcomes (step c (Load d))) + length (co_in_flight (step c (Load d)))
        = Suc (length (co_outcomes c) + length (co_in_flight c))"
      using sl by simp
    from Cons.IH [OF t d1 dj pr] cnt show ?thesis
      unfolding Load by (simp del: step.simps)
  next
    case (Commit d)
    note sc = step_commit [OF Cons.prems(1), of d]
    have t: "on_track n (step c (Commit d))" using sc by simp
    have sub: "fst ` set (co_in_flight (step c (Commit d))) \<subseteq> fst ` set (co_in_flight c)"
      using sc by simp
    have d1: "distinct (loads es)"
      using Cons.prems(2) Commit by simp
    have dj: "set (loads es) \<inter> fst ` set (co_in_flight (step c (Commit d))) = {}"
      using sub Cons.prems(3) Commit by auto
    have pr: "proposed_for (co_live (step c (Commit d))) d'" if "d' \<in> set (loads es)" for d'
    proof -
      from that Cons.prems(3) Commit have "d' \<notin> fst ` set (co_in_flight c)" by auto
      with sc have "proposed_for (co_live (step c (Commit d))) d' = proposed_for (co_live c) d'"
        by simp
      with that Cons.prems(4) Commit show ?thesis by simp
    qed
    have cnt: "length (co_outcomes (step c (Commit d))) + length (co_in_flight (step c (Commit d)))
        = length (co_outcomes c) + length (co_in_flight c)"
      using sc by simp
    from Cons.IH [OF t d1 dj pr] cnt show ?thesis
      unfolding Commit by (simp del: step.simps)
  qed
qed

lemma start_on_track:
  assumes "cr_units_fulfilled r = 0" "1 \<le> cr_units_needed r" "\<not> is_terminal (cr_status r)"
  shows "on_track (cr_units_needed r) \<lparr>co_live = r, co_in_flight = [], co_outcomes = []\<rparr>"
  using assms
  by (auto simp: on_track_def settled_def units_in_range_def is_terminal_def succeeded_def
      failures_def)

lemma on_track_totals:
  assumes "on_track n c" "co_in_flight c = []" "0 \<le> n"
  shows "cr_units_fulfilled (co_live c) = min (int (length (co_outcomes c))) n
    \<and> int (succeeded (co_outcomes c)) = min (int (length (co_outcomes c))) n"
proof -
  have cnt: "length (co_outcomes c) = succeeded (co_outcomes c) + length (failures (co_outcomes c))"
    by (rule outcomes_count)
  from assms(1) have uf: "cr_units_fulfilled (co_live c) = int (succeeded (co_outcomes c))"
    and le: "cr_units_fulfilled (co_live c) \<le> n"
    and full: "failures (co_outcomes c) = [] \<or> cr_units_fulfilled (co_live c) = n"
    by (auto simp: on_track_def settled_def units_in_range_def)
  from full show ?thesis
  proof
    assume "failures (co_outcomes c) = []"
    with cnt uf le show ?thesis by simp
  next
    assume "cr_units_fulfilled (co_live c) = n"
    with cnt uf show ?thesis by simp
  qed
qed

lemma loads_phase:
  assumes "\<not> is_terminal (cr_status (co_live c))" "\<And>d. d \<in> set ds \<Longrightarrow> proposed_for (co_live c) d"
  shows "co_outcomes (foldl step c (map Load ds)) = co_outcomes c
    \<and> co_live (foldl step c (map Load ds)) = co_live c"
  using assms
proof (induction ds arbitrary: c)
  case Nil
  then show ?case by simp
next
  case (Cons d ds)
  from load_proposed [of "co_live c" d] Cons.prems
  obtain m where l: "load_and_check (co_live c) d = Inr m" by auto
  have s: "step c (Load d) = c\<lparr>co_in_flight := co_in_flight c @ [(d, m)]\<rparr>"
    by (simp add: l)
  have "co_outcomes (foldl step (step c (Load d)) (map Load ds)) = co_outcomes (step c (Load d))
    \<and> co_live (foldl step (step c (Load d)) (map Load ds)) = co_live (step c (Load d))"
    unfolding s using Cons.prems by (intro Cons.IH) simp_all
  then show ?case unfolding s by (simp del: step.simps add: s)
qed

lemma commits_phase:
  "set (failures (co_outcomes (foldl step c (map Commit cs))))
     \<subseteq> set (failures (co_outcomes c)) \<union> {RequestAlreadySatisfied}"
proof (induction cs arbitrary: c)
  case Nil
  then show ?case by auto
next
  case (Cons d cs)
  have one: "set (failures (co_outcomes (step c (Commit d))))
      \<subseteq> set (failures (co_outcomes c)) \<union> {RequestAlreadySatisfied}"
  proof (cases "map_of (co_in_flight c) d")
    case None
    then have "step c (Commit d) = c" by simp
    then show ?thesis by (simp only: Un_upper1)
  next
    case (Some m)
    show ?thesis
    proof (cases "commit_accept (co_live c) d m")
      case (Inl e)
      then have "e = RequestAlreadySatisfied" by (rule commit_fails_satisfied)
      with Inl Some show ?thesis by (auto simp: failures_snoc)
    next
      case (Inr res)
      with Some show ?thesis by (cases res) (auto simp: failures_snoc)
    qed
  qed
  have "set (failures (co_outcomes (foldl step (step c (Commit d)) (map Commit cs))))
      \<subseteq> set (failures (co_outcomes (step c (Commit d)))) \<union> {RequestAlreadySatisfied}"
    by (rule Cons.IH)
  with one show ?case by (auto simp del: step.simps)
qed

lemma accept_keeps_range:
  "units_in_range q \<Longrightarrow> acceptMatch q d = Inr (q', m) \<Longrightarrow> units_in_range q'"
  by (auto simp: acceptMatch_def units_in_range_def Let_def split: option.splits if_splits)

lemma cancel_keeps_range:
  "units_in_range q \<Longrightarrow> cancelRequest q = Inr q' \<Longrightarrow> units_in_range q'"
  by (auto simp: cancelRequest_def units_in_range_def split: if_splits)

text \<open>
  Claim C1, as stated: of N concurrent calls of \<open>acceptMatch\<close> on one request exactly
  \<open>units_needed\<close> succeed and each remaining call fails with
  \<open>RequestAlreadySatisfied\<close>. With one unit needed and three proposed donors whose
  calls overlap, the first two load the request, the first commits and fulfils it, the
  third loads it while the second is still in flight and fails with \<open>RequestTerminal\<close>
  at step 2, and the second then fails with \<open>RequestAlreadySatisfied\<close> at step 3. And
  with three units needed, two overlapping calls both succeed: two calls, not three.
\<close>

theorem remaining_accepts_counterexample:
  "co_outcomes (run_events
      (storeMatches
        [\<lparr>cm_donor_id = ''d1'', cm_donor_name = ''Asha'', cm_blood_type = ''O-'', cm_distance_km = 1,
           cm_compatibility_score = 99, cm_status = Proposed, cm_is_available = True\<rparr>,
         \<lparr>cm_donor_id = ''d2'', cm_donor_name = ''Ben'', cm_blood_type = ''O-'', cm_distance_km = 5,
           cm_compatibility_score = 95, cm_status = Proposed, cm_is_available = True\<rparr>,
         \<lparr>cm_donor_id = ''d3'', cm_donor_name = ''Chen'', cm_blood_type = ''O-'', cm_distance_km = 50,
           cm_compatibility_score = 50, cm_status = Proposed, cm_is_available = True\<rparr>]
        (createRequest ''r1'' ''u1'' ''O-'' 1 ''emergency'' ()))
      [Load ''d1'', Load ''d2'', Commit ''d1'', Load ''d3'', Commit ''d2''])
    = [Inr \<lparr>cm_donor_id = ''d1'', cm_donor_name = ''Asha'', cm_blood_type = ''O-'', cm_distance_km = 1,
            cm_compatibility_score = 99, cm_status = Accepted, cm_is_available = True\<rparr>,
       Inl RequestTerminal, Inl RequestAlreadySatisfied]
   \<and> succeeded (co_outcomes (run_events
      (storeMatches
        [\<lparr>cm_donor_id = ''d1'', cm_donor_name = ''Asha'', cm_blood_type = ''O-'', cm_distance_km = 1,
           cm_compatibility_score = 99, cm_status = Proposed, cm_is_available = True\<rparr>,
         \<lparr>cm_donor_id = ''d2'', cm_donor_name = ''Ben'', cm_blood_type = ''O-'', cm_distance_km = 5,
           cm_compatibility_score = 95, cm_status = Proposed, cm_is_available = True\<rparr>]
        (createRequest ''r2'' ''u1'' ''O-'' 3 ''emergency'' ()))
      [Load ''d1'', Load ''d2'', Commit ''d2'', Commit ''d1''])) = 2"
  by (simp add: run_events_def storeMatches_def createRequest_def load_and_check_def
      commit_accept_def is_terminal_def succeeded_def)

text \<open>
  Claim C1, amended. \<open>0 \<le> units_fulfilled \<le> units_needed\<close> holds after creation and
  is kept by every operation (storing the matches, \<open>acceptMatch\<close>, cancelling). When N
  distinct donors, each with a proposed match, call \<open>acceptMatch\<close> concurrently on a
  request with no unit fulfilled, at least one unit needed and a status that is not
  terminal, then however the load-and-check steps (1 and 2) and the atomic commit steps
  (3 and 4) of the calls interleave: the range holds after every step, and once all calls
  have ended the final \<open>units_fulfilled\<close> is \<open>min(N, units_needed)\<close>, exactly
  \<open>min(N, units_needed)\<close> calls succeeded, and each remaining call failed with
  \<open>RequestAlreadySatisfied\<close> or with \<open>RequestTerminal\<close>; when all the calls load
  before any of them commits, each remaining call failed with
  \<open>RequestAlreadySatisfied\<close>.
\<close>

theorem concurrent_accepts_fill_request:
  assumes "cr_units_fulfilled r = 0" and "1 \<le> cr_units_needed r"
    and "\<not> is_terminal (cr_status r)"
    and "distinct (loads es)" and "\<forall>d \<in> set (loads es). proposed_for r d"
    and "co_in_flight (run_events r es) = []"
  shows "cr_units_fulfilled (co_live (run_events r es))
        = min (int (length (loads es))) (cr_units_needed r)
    \<and> int (succeeded (co_outcomes (run_events r es)))
        = min (int (length (loads es))) (cr_units_needed r)
    \<and> length (co_outcomes (run_events r es)) = length (loads es)
    \<and> (\<forall>e \<in> set (failures (co_outcomes (run_events r es))).
          e = RequestAlreadySatisfied \<or> e = RequestTerminal)
    \<and> (\<forall>ds cs. es = map Load ds @ map Commit cs \<longrightarrow>
          (\<forall>e \<in> set (failures (co_outcomes (run_events r es))). e = RequestAlreadySatisfied))
    \<and> (\<forall>k \<le> length es. units_in_range (co_live (run_events r (take k es))))
    \<and> (units_in_range q \<longrightarrow>
          (\<forall>q' m. acceptMatch q d = Inr (q', m) \<longrightarrow> units_in_range q')
          \<and> (\<forall>q'. cancelRequest q = Inr q' \<longrightarrow> units_in_range q')
          \<and> units_in_range (storeMatches ms q))
    \<and> (0 \<le> n \<longrightarrow> units_in_range (createRequest ident requester blood_type n urgency coordinate))"
proof -
  let ?start = "\<lparr>co_live = r, co_in_flight = [], co_outcomes = []\<rparr>"
  have st: "on_track (cr_units_needed r) ?start"
    using assms(1-3) by (rule start_on_track)
  have p: "\<And>d. d \<in> set (loads es) \<Longrightarrow> proposed_for (co_live ?start) d"
    using assms(5) by simp
  have dj: "set (loads es) \<inter> fst ` set (co_in_flight ?start) = {}"
    by simp
  note fin = run_on_track [OF st assms(4) dj p, folded run_events_def]
  have t: "on_track (cr_units_needed r) (run_events r es)"
    using fin by simp
  have l: "length (co_outcomes (run_events r es)) = length (loads es)"
    using fin assms(6) by simp
  have nn: "0 \<le> cr_units_needed r" using assms(2) by simp
  note tot = on_track_totals [OF t assms(6) nn]
  have a: "cr_units_fulfilled (co_live (run_events r es))
        = min (int (length (loads es))) (cr_units_needed r)"
    using tot l by simp
  have b: "int (succeeded (co_outcomes (run_events r es)))
        = min (int (length (loads es))) (cr_units_needed r)"
    using tot l by simp
  have c: "\<forall>e \<in> set (failures (co_outcomes (run_events r es))).
          e = RequestAlreadySatisfied \<or> e = RequestTerminal"
    using t by (auto simp: on_track_def list_all_iff)
  have f: "\<forall>ds cs. es = map Load ds @ map Commit cs \<longrightarrow>
          (\<forall>e \<in> set (failures (co_outcomes (run_events r es))). e = RequestAlreadySatisfied)"
  proof (intro allI impI ballI)
    fix ds cs e
    assume es: "es = map Load ds @ map Commit cs"
      and e: "e \<in> set (failures (co_outcomes (run_events r es)))"
    have lds: "loads es = ds"
      unfolding es loads_append by (induction ds) (simp_all, induction cs, simp_all)
    have nt: "\<not> is_terminal (cr_status (co_live ?start))" using assms(3) by simp
    have pd: "\<And>d. d \<in> set ds \<Longrightarrow> proposed_for (co_live ?start) d"
      using assms(5) lds by simp
    from loads_phase [OF nt pd]
    have "failures (co_outcomes (foldl step ?start (map Load ds))) = []"
      by (simp add: failures_def)
    with commits_phase [of "foldl step ?start (map Load ds)" cs]
    have "set (failures (co_outcomes (run_events r es))) \<subseteq> {RequestAlreadySatisfied}"
      by (simp add: run_events_def es)
    with e show "e = RequestAlreadySatisfied" by auto
  qed
  have k: "\<forall>k \<le> length es. units_in_range (co_live (run_events r (take k es)))"
  proof (intro allI impI)
    fix k
    have sp: "loads es = loads (take k es) @ loads (drop k es)"
      by (simp add: loads_append [symmetric])
    have dk: "distinct (loads (take k es))"
      using assms(4) unfolding sp by simp
    have pk: "\<And>d. d \<in> set (loads (take k es)) \<Longrightarrow> proposed_for (co_live ?start) d"
    proof -
      fix d assume "d \<in> set (loads (take k es))"
      then have "d \<in> set (loads es)" unfolding sp by simp
      with assms(5) show "proposed_for (co_live ?start) d" by simp
    qed
    have djk: "set (loads (take k es)) \<inter> fst ` set (co_in_flight ?start) = {}"
      by simp
    from run_on_track [OF st dk djk pk, folded run_events_def]
    have "on_track (cr_units_needed r) (run_events r (take k es))" by simp
    then show "units_in_range (co_live (run_events r (take k es)))"
      by (simp add: on_track_def settled_def)
  qed
  have s1: "\<forall>q' m. acceptMatch q d = Inr (q', m) \<longrightarrow> units_in_range q'" if "units_in_range q"
    using that by (blast intro: accept_keeps_range)
  have s2: "\<forall>q'. cancelRequest q = Inr q' \<longrightarrow> units_in_range q'" if "units_in_range q"
    using that by (blast intro: cancel_keeps_range)
  have s3: "units_in_range (storeMatches ms q)" if "units_in_range q"
    using that by (simp add: storeMatches_def units_in_range_def)
  have step: "units_in_range q \<longrightarrow>
          (\<forall>q' m. acceptMatch q d = Inr (q', m) \<longrightarrow> units_in_range q')
          \<and> (\<forall>q'. cancelRequest q = Inr q' \<longrightarrow> units_in_range q')
          \<and> units_in_range (storeMatches ms q)"
    using s1 s2 s3 by (intro impI conjI)
  have new: "0 \<le> n \<longrightarrow> units_in_range (createRequest ident requester blood_type n urgency coordinate)"
    by (simp add: createRequest_def units_in_range_def)
  from a b l c f k step new show ?thesis by (intro conjI)
qed

theorem concurrent_accepts_fill_request_witness:
  "cr_units_fulfilled (storeMatches
        [\<lparr>cm_donor_id = ''d1'', cm_donor_name = ''Asha'', cm_blood_type = ''O-'', cm_distance_km = 1,
           cm_compatibility_score = 99, cm_status = Proposed, cm_is_available = True\<rparr>,
         \<lparr>cm_donor_id = ''d2'', cm_donor_name = ''Ben'', cm_blood_type = ''O-'', cm_distance_km = 5,
           cm_compatibility_score = 95, cm_status = Proposed, cm_is_available = True\<rparr>,
         \<lparr>cm_donor_id = ''d3'', cm_donor_name = ''Chen'', cm_blood_type = ''O-'', cm_distance_km = 50,
           cm_compatibility_score = 50, cm_status = Proposed, cm_is_available = True\<rparr>]
        (createRequest ''r1'' ''u1'' ''O-'' 1 ''emergency'' ())) = 0
   \<and> distinct (loads [Load ''d1'', Load ''d2'', Commit ''d1'', Load ''d3'', Commit ''d2''])
   \<and> co_in_flight (run_events
      (storeMatches
        [\<lparr>cm_donor_id = ''d1'', cm_donor_name = ''Asha'', cm_blood_type = ''O-'', cm_distance_km = 1,
           cm_compatibility_score = 99, cm_status = Proposed, cm_is_available = True\<rparr>,
         \<lparr>cm_donor_id = ''d2'', cm_donor_name = ''Ben'', cm_blood_type = ''O-'', cm_distance_km = 5,
           cm_compatibility_score = 95, cm_status = Proposed, cm_is_available = True\<rparr>,
         \<lparr>cm_donor_id = ''d3'', cm_donor_name = ''Chen'', cm_blood_type = ''O-'', cm_distance_km = 50,
           cm_compatibility_score = 50, cm_status = Proposed, cm_is_available = True\<rparr>]
        (createRequest ''r1'' ''u1'' ''O-'' 1 ''emergency'' ()))
      [Load ''d1'', Load ''d2'', Commit ''d1'', Load ''d3'', Commit ''d2'']) = []
   \<and> cr_units_fulfilled (co_live (run_events
      (storeMatches
        [\<lparr>cm_donor_id = ''d1'', cm_donor_name = ''Asha'', cm_blood_type = ''O-'', cm_distance_km = 1,
           cm_compatibility_score = 99, cm_status = Proposed, cm_is_available = True\<rparr>,
         \<lparr>cm_donor_id = ''d2'', cm_donor_name = ''Ben'', cm_blood_type = ''O-'', cm_distance_km = 5,
           cm_compatibility_score = 95, cm_status = Proposed, cm_is_available = True\<rparr>,
         \<lparr>cm_donor_id = ''d3'', cm_donor_name = ''Chen'', cm_blood_type = ''O-'', cm_distance_km = 50,
           cm_compatibility_score = 50, cm_status = Proposed, cm_is_available = True\<rparr>]
        (createRequest ''r1'' ''u1'' ''O-'' 1 ''emergency'' ()))
      [Load ''d1'', Load ''d2'', Commit ''d1'', Load ''d3'', Commit ''d2''])) = 1"
proof -
  define R where "R = storeMatches
        [\<lparr>cm_donor_id = ''d1'', cm_donor_name = ''Asha'', cm_blood_type = ''O-'', cm_distance_km = 1,
           cm_compatibility_score = 99, cm_status = Proposed, cm_is_available = True\<rparr>,
         \<lparr>cm_donor_id = ''d2'', cm_donor_name = ''Ben'', cm_blood_type = ''O-'', cm_distance_km = 5,
           cm_compatibility_score = 95, cm_status = Proposed, cm_is_available = True\<rparr>,
         \<lparr>cm_donor_id = ''d3'', cm_donor_name = ''Chen'', cm_blood_type = ''O-'', cm_distance_km = 50,
           cm_compatibility_score = 50, cm_status = Proposed, cm_is_available = True\<rparr>]
        (createRequest ''r1'' ''u1'' ''O-'' 1 ''emergency'' ())"
  define S where "S = [Load ''d1'', Load ''d2'', Commit ''d1'', Load ''d3'', Commit ''d2'']"
  have h1: "cr_units_fulfilled R = 0" and h2: "1 \<le> cr_units_needed R"
    and h3: "\<not> is_terminal (cr_status R)"
    by (simp_all add: R_def storeMatches_def createRequest_def is_terminal_def)
  have h4: "distinct (loads S)" by (simp add: S_def)
  have h5: "\<forall>d \<in> set (loads S). proposed_for R d"
    by (simp add: S_def R_def storeMatches_def createRequest_def proposed_for_def)
  have h6: "co_in_flight (run_events R S) = []"
    by (simp add: S_def R_def run_events_def storeMatches_def createRequest_def
        load_and_check_def commit_accept_def is_terminal_def)
  from concurrent_accepts_fill_request [OF h1 h2 h3 h4 h5 h6, THEN conjunct1]
  have "cr_units_fulfilled (co_live (run_events R S))
      = min (int (length (loads S))) (cr_units_needed R)" .
  also have "\<dots> = 1"
    by (simp add: S_def R_def storeMatches_def createRequest_def)
  finally have "cr_units_fulfilled (co_live (run_events R S)) = 1" .
  with h1 h4 h6 show ?thesis
    unfolding R_def S_def by (intro conjI)
qed

text \<open>
  Claim C6, as stated: on a terminal request \<open>acceptMatch\<close> fails with
  \<open>RequestTerminal\<close> for any donor, and the client never offers Accept when the status
  is \<open>fulfilled\<close> or \<open>cancelled\<close>. A donor with no match on a fulfilled request gets
  \<open>MatchNotFound\<close> (step 1 comes first), and both client guards offer Accept on a
  cancelled request.
\<close>

theorem accept_after_terminal_counterexample:
  "acceptMatch
      \<lparr>cr_id = ''r1'', cr_requester = ''u1'', cr_blood_type = ''O-'', cr_units_needed = 1,
        cr_units_fulfilled = 1, cr_urgency = ''urgent'', cr_status = Fulfilled,
        cr_matches =
          [\<lparr>cm_donor_id = ''d1'', cm_donor_name = ''Asha'', cm_blood_type = ''O-'',
             cm_distance_km = 1, cm_compatibility_score = 99, cm_status = Accepted,
             cm_is_available = True\<rparr>],
        cr_coordinate = ()\<rparr> ''d9'' = Inl MatchNotFound
   \<and> RequestCard_offers_accept (Some True)
        \<lparr>r_id = ''r2'', r_requester_id = ''u1'', r_blood_type = ''O-'', r_units_needed = 1,
          r_units_fulfilled = 0, r_urgency = ''urgent'', r_status = ''cancelled'',
          r_matched_donors =
            [\<lparr>m_donor_id = ''d1'', m_donor_name = ''Asha'', m_blood_type = ''O-'',
               m_is_available = True, m_status = Some ''proposed''\<rparr>]\<rparr>
   \<and> RequestDetail_offers_accept (Some \<lparr>u_id = ''d1'', u_role = ''donor''\<rparr>)
        \<lparr>r_id = ''r2'', r_requester_id = ''u1'', r_blood_type = ''O-'', r_units_needed = 1,
          r_units_fulfilled = 0, r_urgency = ''urgent'', r_status = ''cancelled'',
          r_matched_donors =
            [\<lparr>m_donor_id = ''d1'', m_donor_name = ''Asha'', m_blood_type = ''O-'',
               m_is_available = True, m_status = Some ''proposed''\<rparr>]\<rparr>"
  by (simp add: acceptMatch_def RequestCard_offers_accept_def RequestDetail_offers_accept_def
      is_my_match_def)

text \<open>
  Claim C6, amended. Once a request's status is terminal (\<open>fulfilled\<close> or
  \<open>cancelled\<close>), \<open>acceptMatch\<close> never succeeds: it fails with \<open>MatchNotFound\<close>
  when the donor has no match on the request, with \<open>AlreadyDecided\<close> when the donor's
  match is no longer proposed, and with \<open>RequestTerminal\<close> when the match is proposed.
  The client (\<open>RequestCard\<close> and \<open>RequestDetailScreen\<close>) never offers the Accept
  action for a request whose status is \<open>fulfilled\<close>.
\<close>

theorem no_accept_after_terminal:
  assumes "is_terminal (cr_status r)" and "r_status request = ''fulfilled''"
  shows "isl (acceptMatch r donor)
    \<and> (find (\<lambda>m. cm_donor_id m = donor) (cr_matches r) = None \<longrightarrow>
          acceptMatch r donor = Inl MatchNotFound)
    \<and> ((\<exists>m. find (\<lambda>m. cm_donor_id m = donor) (cr_matches r) = Some m \<and> cm_status m \<noteq> Proposed) \<longrightarrow>
          acceptMatch r donor = Inl AlreadyDecided)
    \<and> (proposed_for r donor \<longrightarrow> acceptMatch r donor = Inl RequestTerminal)
    \<and> \<not> RequestCard_offers_accept showAccept request
    \<and> \<not> RequestDetail_offers_accept usr request"
  using assms
  by (auto simp: acceptMatch_def proposed_for_def RequestCard_offers_accept_def
      RequestDetail_offers_accept_def Let_def split: option.splits)

theorem no_accept_after_terminal_witness:
  "is_terminal Fulfilled
   \<and> acceptMatch
      \<lparr>cr_id = ''r1'', cr_requester = ''u1'', cr_blood_type = ''O-'', cr_units_needed = 1,
        cr_units_fulfilled = 1, cr_urgency = ''urgent'', cr_status = Fulfilled,
        cr_matches =
          [\<lparr>cm_donor_id = ''d1'', cm_donor_name = ''Asha'', cm_blood_type = ''O-'',
             cm_distance_km = 1, cm_compatibility_score = 99, cm_status = Accepted,
             cm_is_available = True\<rparr>,
           \<lparr>cm_donor_id = ''d2'', cm_donor_name = ''Ben'', cm_blood_type = ''O-'',
             cm_distance_km = 5, cm_compatibility_score = 95, cm_status = Proposed,
             cm_is_available = True\<rparr>],
        cr_coordinate = ()\<rparr> ''d2'' = Inl RequestTerminal
   \<and> \<not> RequestCard_offers_accept (Some True)
        \<lparr>r_id = ''r1'', r_requester_id = ''u1'', r_blood_type = ''O-'', r_units_needed = 1,
          r_units_fulfilled = 1, r_urgency = ''urgent'', r_status = ''fulfilled'',
          r_matched_donors =
            [\<lparr>m_donor_id = ''d2'', m_donor_name = ''Ben'', m_blood_type = ''O-'',
               m_is_available = True, m_status = Some ''proposed''\<rparr>]\<rparr>
   \<and> \<not> RequestDetail_offers_accept (Some \<lparr>u_id = ''d2'', u_role = ''donor''\<rparr>)
        \<lparr>r_id = ''r1'', r_requester_id = ''u1'', r_blood_type = ''O-'', r_units_needed = 1,
          r_units_fulfilled = 1, r_urgency = ''urgent'', r_status = ''fulfilled'',
          r_matched_donors =
            [\<lparr>m_donor_id = ''d2'', m_donor_name = ''Ben'', m_blood_type = ''O-'',
               m_is_available = True, m_status = Some ''proposed''\<rparr>]\<rparr>"
proof -
  define R where "R =
      \<lparr>cr_id = ''r1'', cr_requester = ''u1'', cr_blood_type = ''O-'', cr_units_needed = 1,
        cr_units_fulfilled = 1, cr_urgency = ''urgent'', cr_status = Fulfilled,
        cr_matches =
          [\<lparr>cm_donor_id = ''d1'', cm_donor_name = ''Asha'', cm_blood_type = ''O-'',
             cm_distance_km = 1, cm_compatibility_score = 99, cm_status = Accepted,
             cm_is_available = True\<rparr>,
           \<lparr>cm_donor_id = ''d2'', cm_donor_name = ''Ben'', cm_blood_type = ''O-'',
             cm_distance_km = 5, cm_compatibility_score = 95, cm_status = Proposed,
             cm_is_available = True\<rparr>],
        cr_coordinate = ()\<rparr>"
  define C where "C =
        \<lparr>r_id = ''r1'', r_requester_id = ''u1'', r_blood_type = ''O-'', r_units_needed = 1,
          r_units_fulfilled = 1, r_urgency = ''urgent'', r_status = ''fulfilled'',
          r_matched_donors =
            [\<lparr>m_donor_id = ''d2'', m_donor_name = ''Ben'', m_blood_type = ''O-'',
               m_is_available = True, m_status = Some ''proposed''\<rparr>]\<rparr>"
  have t: "is_terminal Fulfilled" by (simp add: is_terminal_def)
  have h1: "is_terminal (cr_status R)" by (simp add: R_def is_terminal_def)
  have h2: "r_status C = ''fulfilled''" by (simp add: C_def)
  have p: "proposed_for R ''d2''" by (simp add: R_def proposed_for_def)
  from no_accept_after_terminal [OF h1 h2, of "''d2''" "Some True" "Some \<lparr>u_id = ''d2'', u_role = ''donor''\<rparr>"] p
  have "acceptMatch R ''d2'' = Inl RequestTerminal
    \<and> \<not> RequestCard_offers_accept (Some True) C
    \<and> \<not> RequestDetail_offers_accept (Some \<lparr>u_id = ''d2'', u_role = ''donor''\<rparr>) C"
    by blast
  with t show ?thesis
    unfolding R_def C_def by (intro conjI) (elim conjE, assumption)+
qed

end
